theory Spec2Isabelle
  imports
    Main
    "HOL-Library.Word"
    "HOL-Library.Signed_Division"
    "HOL-Library.Char_ord"
    "HOL-Library.List_Lexorder"
begin

section \<open>Machine integers of check\_fps.cpp\<close>

text \<open>
  The C++ type \<open>int\<close> is a 32-bit two's complement integer. \<open>sint\<close> reads the
  signed value. Addition wraps (the C++ standard leaves signed overflow undefined;
  no reachable value of the downtime counter overflows, see the section on its
  range below).
\<close>

type_synonym cint = "32 word"

datatype error = DivisionByZero | SignedOverflow

text \<open>
  \<open>a / b\<close> on \<open>int\<close>: truncation towards zero. Undefined in C++ for \<open>b = 0\<close> and
  for \<open>INT_MIN / -1\<close>; both are error branches here.
\<close>

definition int_div :: "cint \<Rightarrow> cint \<Rightarrow> error + cint" where
  "int_div a b =
     (if b = 0 then Inl DivisionByZero
      else if sint a = - (2 ^ 31) \<and> sint b = - 1 then Inl SignedOverflow
      else Inr (word_of_int (sint a sdiv sint b)))"

section \<open>std::map with ordered keys\<close>

text \<open>
  A \<open>std::map<K, V>\<close> is kept as its list of entries in iteration order
  (ascending keys, no key twice). \<open>std::string\<close> keys compare byte-wise and
  lexicographically, which is the order of \<open>string\<close> under
  \<open>Char_ord\<close> and \<open>List_Lexorder\<close>.
\<close>

type_synonym ('k, 'v) std_map = "('k \<times> 'v) list"

text \<open>\<open>m.find(k)\<close>\<close>

fun map_find :: "'k \<Rightarrow> ('k, 'v) std_map \<Rightarrow> 'v option" where
  "map_find k [] = None"
| "map_find k ((k', v') # m) = (if k = k' then Some v' else map_find k m)"

text \<open>\<open>m[k] = v\<close>: insert at the key's place in the order, or overwrite.\<close>

fun assign :: "'k::linorder \<Rightarrow> 'v \<Rightarrow> ('k, 'v) std_map \<Rightarrow> ('k, 'v) std_map" where
  "assign k v [] = [(k, v)]"
| "assign k v ((k', v') # m) =
     (if k < k' then (k, v) # (k', v') # m
      else if k = k' then (k, v) # m
      else (k', v') # assign k v m)"

text \<open>
  \<open>m[k]\<close> as a read: \<open>operator[]\<close> inserts a value-initialised entry (0 for
  \<open>int\<close>) when the key is absent, and yields the entry's value.
\<close>

definition subscript :: "'k::linorder \<Rightarrow> ('k, cint) std_map \<Rightarrow> cint \<times> ('k, cint) std_map" where
  "subscript k m =
     (case map_find k m of
        Some v \<Rightarrow> (v, m)
      | None \<Rightarrow> (0, assign k 0 m))"

section \<open>Observable effects\<close>

datatype ostream = Cout | Cerr

datatype GstState = GST_STATE_NULL | GST_STATE_PLAYING

text \<open>
  The trace records what the program writes to the two console streams and every
  \<open>gst_element_set_state\<close> call on a camera's pipeline (the camera is named
  by its \<open>name\<close>).
\<close>

datatype event =
    Print ostream string
  | SetState string GstState

definition endl :: string where
  "endl = [CHR 0x0A]"

definition ESC :: string where
  "ESC = [CHR 0x1B]"

section \<open>Global state\<close>

record globals =
  fps_map :: "(string, cint) std_map"
  downtime_map :: "(string, cint) std_map"
  trace :: "event list"

definition init_globals :: globals where
  "init_globals = \<lparr>fps_map = [], downtime_map = [], trace = []\<rparr>"

definition emit :: "event list \<Rightarrow> globals \<Rightarrow> globals" where
  "emit es g = g\<lparr>trace := trace g @ es\<rparr>"

section \<open>class Camera\<close>

record Camera =
  name :: string
  uri :: string
  frame_count :: cint
  running :: bool

text \<open>
  The constructor. \<open>elements_ok\<close> tells whether GStreamer created all four
  elements; when it did not, the constructor returns early, after the fields and
  the downtime entry have been initialised.
\<close>

definition Camera_ctor :: "string \<Rightarrow> string \<Rightarrow> bool \<Rightarrow> globals \<Rightarrow> Camera \<times> globals" where
  "Camera_ctor nm u elements_ok g =
     (let cam = \<lparr>name = nm, uri = u, frame_count = 0, running = True\<rparr>;
          g1 = emit [Print Cout (''Initializing camera with URI: '' @ u @ endl)] g;
          g2 = g1\<lparr>downtime_map := assign nm (- 1) (downtime_map g1)\<rparr>
      in if \<not> elements_ok
         then (cam, emit [Print Cerr (''Failed to create GStreamer elements!'' @ endl)] g2)
         else (cam, emit [Print Cout (''Camera initialized successfully.'' @ endl)] g2))"

text \<open>
  \<open>start\<close> and \<open>stop\<close>: \<open>ok\<close> is false when \<open>gst_element_set_state\<close>
  answers \<open>GST_STATE_CHANGE_FAILURE\<close>. Neither changes a field of the camera.
\<close>

definition start :: "Camera \<Rightarrow> bool \<Rightarrow> event list" where
  "start cam ok =
     [Print Cout (''Starting camera: '' @ uri cam @ endl),
      SetState (name cam) GST_STATE_PLAYING,
      if \<not> ok
      then Print Cerr (''Failed to start pipeline for camera: '' @ uri cam @ endl)
      else Print Cout (''Camera started successfully: '' @ uri cam @ endl)]"

definition stop :: "Camera \<Rightarrow> bool \<Rightarrow> event list" where
  "stop cam ok =
     [Print Cout (''Stopping camera: '' @ uri cam @ endl),
      SetState (name cam) GST_STATE_NULL,
      if \<not> ok
      then Print Cerr (''Failed to stop pipeline for camera: '' @ uri cam @ endl)
      else Print Cout (''Camera stopped successfully: '' @ uri cam @ endl)]"

definition set_running :: "bool \<Rightarrow> Camera \<Rightarrow> Camera" where
  "set_running state cam = cam\<lparr>running := state\<rparr>"

datatype GstFlowReturn = GST_FLOW_OK | GST_FLOW_ERROR

text \<open>
  The appsink callback. \<open>pulled\<close> tells whether
  \<open>gst_app_sink_pull_sample\<close> returned a sample.
\<close>

definition on_new_sample :: "bool \<Rightarrow> Camera \<times> globals \<Rightarrow> GstFlowReturn \<times> Camera \<times> globals" where
  "on_new_sample pulled cg =
     (let (cam, g) = cg
      in if pulled
        then (GST_FLOW_OK, cam\<lparr>frame_count := frame_count cam + 1\<rparr>, g)
        else (GST_FLOW_ERROR, cam,
              emit [Print Cerr (''Failed to pull sample for camera: '' @ uri cam @ endl)] g))"

text \<open>
  One pass through the body of the loop of \<open>Camera::run\<close>, after the sleep:
  the sampling of one window. \<open>stop_ok\<close> and \<open>start_ok\<close> are the answers of
  the pipeline should the pass reconnect.
\<close>

definition run_body :: "cint \<Rightarrow> bool \<Rightarrow> bool \<Rightarrow> Camera \<times> globals \<Rightarrow> error + Camera \<times> globals" where
  "run_body interval stop_ok start_ok cg =
     (let (cam, g) = cg
      in case int_div (frame_count cam) interval of
          Inl e \<Rightarrow> Inl e
        | Inr fps \<Rightarrow>
            let cam1 = cam\<lparr>frame_count := 0\<rparr>;
                g1 = g\<lparr>fps_map := assign (name cam1) fps (fps_map g)\<rparr>
            in if fps = 0
               then
                 let (d, dm) = subscript (name cam1) (downtime_map g1);
                     g2 = g1\<lparr>downtime_map := assign (name cam1) (d + 1) dm\<rparr>
                 in if 5 \<le> sint (fst (subscript (name cam1) (downtime_map g2)))
                    then
                      let g3 = emit ([Print Cout (''Reconnecting camera: '' @ name cam1 @ endl)]
                                     @ stop cam1 stop_ok @ start cam1 start_ok) g2
                      in Inr (cam1, g3\<lparr>downtime_map := assign (name cam1) 0 (downtime_map g3)\<rparr>)
                    else Inr (cam1, g2)
               else Inr (cam1, g1\<lparr>downtime_map := assign (name cam1) 0 (downtime_map g1)\<rparr>))"

text \<open>
  What happens around one camera during one sleep of its loop: the callbacks that
  arrive (each with its pull result), whether the main thread calls
  \<open>set_running(false)\<close>, and the pipeline's answers for a reconnect.
\<close>

record window =
  pulls :: "bool list"
  halt :: bool
  stop_ok :: bool
  start_ok :: bool

definition deliver :: "bool list \<Rightarrow> Camera \<times> globals \<Rightarrow> Camera \<times> globals" where
  "deliver ps cg = fold (\<lambda>p cg'. snd (on_new_sample p cg')) ps cg"

text \<open>
  \<open>Camera::run\<close> against the first windows of its environment: the loop tests
  \<open>running\<close>, sleeps (the window happens), and samples. The list is the part of
  the run that is observed; the state after it is returned.
\<close>

fun run :: "cint \<Rightarrow> window list \<Rightarrow> Camera \<times> globals \<Rightarrow> error + Camera \<times> globals" where
  "run interval [] cg = Inr cg"
| "run interval (w # ws) cg =
     (if \<not> running (fst cg) then Inr cg
      else
        let (cam, g) = deliver (pulls w) cg;
            cam' = (if halt w then set_running False cam else cam)
        in case run_body interval (stop_ok w) (start_ok w) (cam', g) of
             Inl e \<Rightarrow> Inl e
           | Inr cg' \<Rightarrow> run interval ws cg')"

text \<open>The \<open>gst_element_set_state\<close> calls of a trace, in order.\<close>

fun pipeline_calls :: "event list \<Rightarrow> (string \<times> GstState) list" where
  "pipeline_calls [] = []"
| "pipeline_calls (Print s t # es) = pipeline_calls es"
| "pipeline_calls (SetState n st # es) = (n, st) # pipeline_calls es"

section \<open>Decimal output of integers\<close>

definition digit_char :: "nat \<Rightarrow> char" where
  "digit_char d = ''0123456789'' ! (d mod 10)"

fun string_of_nat :: "nat \<Rightarrow> string" where
  "string_of_nat n =
     (if n < 10 then [digit_char n]
      else string_of_nat (n div 10) @ [digit_char (n mod 10)])"

declare string_of_nat.simps [simp del]

text \<open>\<open>std::cout << i\<close> and \<open>std::to_string(i)\<close> for an \<open>int\<close>.\<close>

definition to_string :: "cint \<Rightarrow> string" where
  "to_string i =
     (if sint i < 0 then CHR ''-'' # string_of_nat (nat (- sint i))
      else string_of_nat (nat (sint i)))"

section \<open>print\_fps\<close>

text \<open>
  The \<open>for\<close> loop over \<open>fps_map\<close> in \<open>print_fps\<close>, with its two counters;
  the result is the text written by the loop.
\<close>

fun print_entries :: "nat \<Rightarrow> nat \<Rightarrow> (string, cint) std_map \<Rightarrow> string" where
  "print_entries count current [] = []"
| "print_entries count current (entry # rest) =
     (let current1 = current + 1
      in (if sint (snd entry) < 5
          then ESC @ ''[1;31m'' @ fst entry @ '': '' @ to_string (snd entry) @ '' FPS'' @ ESC @ ''[0m''
          else fst entry @ '': '' @ to_string (snd entry) @ '' FPS'')
         @ (if current1 < count then '', '' else [])
         @ print_entries count current1 rest)"

text \<open>
  The text of one report; \<open>stamp\<close> is what \<open>std::put_time\<close> renders for the
  local time with the format \<open>%d:%m:%Y %H:%M:%S\<close>.
\<close>

definition print_line :: "string \<Rightarrow> (string, cint) std_map \<Rightarrow> string" where
  "print_line stamp m =
     ''['' @ ESC @ ''[1;34m'' @ stamp @ '']'' @ ESC @ ''[0m ''
     @ print_entries (length m) 0 m
     @ endl"

text \<open>One pass through the body of the loop of \<open>print_fps\<close>, after the sleep.\<close>

definition print_fps_body :: "string \<Rightarrow> globals \<Rightarrow> globals" where
  "print_fps_body stamp g = emit [Print Cout (print_line stamp (fps_map g))] g"

text \<open>
  \<open>print_fps\<close> is \<open>while (true)\<close> with no \<open>break\<close> and no \<open>return\<close>.
  \<open>clock i\<close> is the rendered time of pass \<open>i\<close>, and \<open>others i\<close> is what the
  other threads do to the globals during the sleep before pass \<open>i\<close>. The value
  \<open>None\<close> means that the function does not return.
\<close>

partial_function (option) print_fps ::
  "(nat \<Rightarrow> string) \<Rightarrow> (nat \<Rightarrow> globals \<Rightarrow> globals) \<Rightarrow> nat \<Rightarrow> globals \<Rightarrow> globals option" where
  "print_fps clock others i g =
     print_fps clock others (Suc i) (print_fps_body (clock i) (others i g))"

section \<open>read\_camera\_uris\<close>

text \<open>
  The lines that successive \<open>std::getline\<close> calls deliver for a file's content:
  split at line feeds, a last line without line feed included, nothing after a
  final line feed. \<open>cur\<close> holds the current line, reversed.
\<close>

fun getlines :: "string \<Rightarrow> string \<Rightarrow> string list" where
  "getlines cur [] = (if cur = [] then [] else [rev cur])"
| "getlines cur (c # cs) =
     (if c = CHR 0x0A then rev cur # getlines [] cs else getlines (c # cur) cs)"

text \<open>The \<open>while\<close> loop of \<open>read_camera_uris\<close>.\<close>

fun read_lines :: "cint \<Rightarrow> string list \<Rightarrow> (string, string) std_map \<Rightarrow> (string, string) std_map" where
  "read_lines index [] camera_uris = camera_uris"
| "read_lines index (line # lines) camera_uris =
     (if line \<noteq> []
      then read_lines (index + 1) lines (assign (''cam'' @ to_string index) line camera_uris)
      else read_lines index lines camera_uris)"

text \<open>
  \<open>file\<close> is the content of the file named \<open>filename\<close>, or \<open>None\<close> when it
  cannot be opened.
\<close>

definition read_camera_uris :: "string option \<Rightarrow> string \<Rightarrow> (string, string) std_map \<times> event list" where
  "read_camera_uris file filename =
     (case file of
        None \<Rightarrow> ([], [Print Cerr (''Could not open the file: '' @ filename @ endl)])
      | Some content \<Rightarrow> (read_lines 0 (getlines [] content) [], []))"

section \<open>std::stoi\<close>

datatype exception = invalid_argument | out_of_range

definition isspace :: "char \<Rightarrow> bool" where
  "isspace c = (c \<in> set [CHR '' '', CHR 0x09, CHR 0x0A, CHR 0x0B, CHR 0x0C, CHR 0x0D])"

definition isdigit :: "char \<Rightarrow> bool" where
  "isdigit c = (c \<in> set ''0123456789'')"

definition digit_val :: "char \<Rightarrow> int" where
  "digit_val c = int (of_char c) - 48"

definition decimal :: "string \<Rightarrow> int" where
  "decimal ds = foldl (\<lambda>acc c. 10 * acc + digit_val c) 0 ds"

text \<open>
  \<open>std::stoi(str)\<close> with base 10, as the C++ standard library defines it through
  \<open>strtol\<close>: leading white space is skipped, one sign is accepted, the longest run
  of digits is converted and the rest of the string is ignored. It throws
  \<open>std::invalid_argument\<close> when there is no digit to convert and
  \<open>std::out_of_range\<close> when the value is not an \<open>int\<close>.
\<close>

definition stoi :: "string \<Rightarrow> exception + cint" where
  "stoi str =
     (let s1 = dropWhile isspace str;
          (neg, s2) = (case s1 of
                         c # r \<Rightarrow> if c = CHR ''-'' then (True, r)
                                  else if c = CHR ''+'' then (False, r)
                                  else (False, s1)
                       | [] \<Rightarrow> (False, s1));
          ds = takeWhile isdigit s2
      in if ds = [] then Inl invalid_argument
         else
           let v = (if neg then - decimal ds else decimal ds)
           in if v < - (2 ^ 31) \<or> 2 ^ 31 - 1 < v then Inl out_of_range
              else Inr (word_of_int v))"

text \<open>
  An argument read the way the conversion reads it: white space \<open>ws\<close>, a sign
  \<open>sg\<close> or none, the digits \<open>ds\<close> up to the first character that is not a
  digit, and the rest. Without sign and digits the rest starts, if at all, with a
  character that is neither white space nor a sign.
\<close>

definition argument_parts :: "string \<Rightarrow> string \<Rightarrow> string \<Rightarrow> string \<Rightarrow> string \<Rightarrow> bool" where
  "argument_parts s ws sg ds rest \<longleftrightarrow>
     s = ws @ sg @ ds @ rest \<and>
     (\<forall>c\<in>set ws. isspace c) \<and>
     (sg = [] \<or> sg = ''-'' \<or> sg = ''+'') \<and>
     (\<forall>c\<in>set ds. isdigit c) \<and>
     (rest = [] \<or> \<not> isdigit (hd rest)) \<and>
     (sg = [] \<and> ds = [] \<and> rest \<noteq> [] \<longrightarrow>
        \<not> isspace (hd rest) \<and> hd rest \<noteq> CHR ''-'' \<and> hd rest \<noteq> CHR ''+'')"

definition signed_decimal :: "string \<Rightarrow> string \<Rightarrow> int" where
  "signed_decimal sg ds = (if sg = ''-'' then - decimal ds else decimal ds)"

section \<open>main\<close>

text \<open>
  How \<open>main\<close> leaves its first part (up to the call of \<open>read_camera_uris\<close>):
  by \<open>return\<close>, by an exception that nothing catches, or by going on to monitor
  with an interval and a map of cameras.
\<close>

datatype startup =
    Exit cint
  | Uncaught exception
  | Proceed cint "(string, string) std_map"

text \<open>
  \<open>argv\<close> is the argument vector as \<open>gst_init\<close> leaves it (so \<open>argc\<close> is its
  length), \<open>file\<close> the content of \<open>../cameras.txt\<close> when it can be opened.
  With \<open>argc = 0\<close> the pointer \<open>argv[0]\<close> is null: the C++ standard leaves
  streaming it undefined, and the GNU standard library that the build
  instructions install sets the stream's \<open>badbit\<close>, so that \<open>Usage: \<close> is
  written and nothing after it.
\<close>

definition main_startup :: "string list \<Rightarrow> string option \<Rightarrow> startup \<times> event list" where
  "main_startup argv file =
     (if length argv < 2
      then (Exit 1,
            [Print Cerr
               (case argv of
                  [] \<Rightarrow> ''Usage: ''
                | prog # _ \<Rightarrow> ''Usage: '' @ prog @ '' <interval_in_seconds>'' @ endl)])
      else
        case stoi (argv ! 1) of
          Inl e \<Rightarrow> (Uncaught e, [])
        | Inr interval \<Rightarrow>
            let (camera_uris, log) = read_camera_uris file ''../cameras.txt''
            in (Proceed interval camera_uris, log))"

text \<open>
  The loop of \<open>main\<close> that constructs and starts one camera per entry.
  \<open>answers nm\<close> gives, for the camera \<open>nm\<close>, whether its elements could be
  created and whether its pipeline could be started.
\<close>

fun launch :: "(string \<Rightarrow> bool \<times> bool) \<Rightarrow> (string, string) std_map \<Rightarrow> globals \<Rightarrow> Camera list \<times> globals" where
  "launch answers [] g = ([], g)"
| "launch answers (entry # rest) g =
     (let (camera, g1) = Camera_ctor (fst entry) (snd entry) (fst (answers (fst entry))) g;
          g2 = emit (start camera (snd (answers (fst entry)))) g1;
          (cameras, g3) = launch answers rest g2
      in (camera # cameras, g3))"

datatype ending = Returns cint | Aborts exception

text \<open>
  \<open>main\<close> as a whole. After the cleanup loop it joins the thread that runs
  \<open>print_fps\<close> and only then returns 0, so it returns when \<open>print_fps\<close>
  does. The threads of \<open>Camera::run\<close> are not joined. \<open>None\<close> means that
  \<open>main\<close> does not return.
\<close>

definition main ::
  "string list \<Rightarrow> string option \<Rightarrow> (string \<Rightarrow> bool \<times> bool) \<Rightarrow> (nat \<Rightarrow> string)
     \<Rightarrow> (nat \<Rightarrow> globals \<Rightarrow> globals) \<Rightarrow> ending option" where
  "main argv file answers clock others =
     (case main_startup argv file of
        (Exit c, log) \<Rightarrow> Some (Returns c)
      | (Uncaught e, log) \<Rightarrow> Some (Aborts e)
      | (Proceed interval camera_uris, log) \<Rightarrow>
          (case print_fps clock others 0
                  (snd (launch answers camera_uris (emit log init_globals))) of
             None \<Rightarrow> None
           | Some g \<Rightarrow> Some (Returns 0)))"

section \<open>Sequences of operations on the globals\<close>

text \<open>
  The critical sections that the threads of the program execute, each with the
  state of the camera that executes it: a construction, a pass of
  \<open>Camera::run\<close>, a callback, a pass of \<open>print_fps\<close>.
\<close>

datatype operation =
    Construct string string bool
  | Sample Camera cint bool bool
  | NewSample Camera bool
  | Report string

fun apply_op :: "operation \<Rightarrow> globals \<Rightarrow> error + globals" where
  "apply_op (Construct nm u ok) g = Inr (snd (Camera_ctor nm u ok g))"
| "apply_op (Sample cam interval a b) g =
     (case run_body interval a b (cam, g) of Inl e \<Rightarrow> Inl e | Inr cg \<Rightarrow> Inr (snd cg))"
| "apply_op (NewSample cam pulled) g = Inr (snd (snd (on_new_sample pulled (cam, g))))"
| "apply_op (Report stamp) g = Inr (print_fps_body stamp g)"

fun apply_ops :: "operation list \<Rightarrow> globals \<Rightarrow> error + globals" where
  "apply_ops [] g = Inr g"
| "apply_ops (x # xs) g =
     (case apply_op x g of Inl e \<Rightarrow> Inl e | Inr g' \<Rightarrow> apply_ops xs g')"

text \<open>The names of the streams that the passes of \<open>Camera::run\<close> in a sequence sample.\<close>

fun sampled_names :: "operation list \<Rightarrow> string list" where
  "sampled_names [] = []"
| "sampled_names (Sample cam interval a b # xs) = name cam # sampled_names xs"
| "sampled_names (x # xs) = sampled_names xs"

section \<open>The report line in the words of the specification\<close>

text \<open>
  The specification describes a report as a time stamp followed by the items
  \<open><id>: <fps> FPS\<close>, one per stream, separated by commas, an item being
  highlighted when its fps is below 5. These definitions follow that wording;
  the escape sequences of the highlighting are those of the program.
\<close>

fun comma_separated :: "string list \<Rightarrow> string" where
  "comma_separated [] = []"
| "comma_separated [x] = x"
| "comma_separated (x # y # zs) = x @ '', '' @ comma_separated (y # zs)"

definition spec_item :: "string \<Rightarrow> cint \<Rightarrow> string" where
  "spec_item ident fps = ident @ '': '' @ to_string fps @ '' FPS''"

definition spec_highlight :: "string \<Rightarrow> string" where
  "spec_highlight s = ESC @ ''[1;31m'' @ s @ ESC @ ''[0m''"

definition spec_entry :: "string \<times> cint \<Rightarrow> string" where
  "spec_entry e =
     (if sint (snd e) < 5 then spec_highlight (spec_item (fst e) (snd e))
      else spec_item (fst e) (snd e))"

section \<open>Observations on a run\<close>

text \<open>
  What a run of \<open>Camera::run\<close> leaves behind: the pipeline calls in the trace and
  the downtime counter of a stream (nothing when the run hit an error).
\<close>

definition calls_after :: "error + Camera \<times> globals \<Rightarrow> (string \<times> GstState) list option" where
  "calls_after r = (case r of Inl e \<Rightarrow> None | Inr cg \<Rightarrow> Some (pipeline_calls (trace (snd cg))))"

definition downtime_after :: "string \<Rightarrow> error + Camera \<times> globals \<Rightarrow> cint option" where
  "downtime_after nm r = (case r of Inl e \<Rightarrow> None | Inr cg \<Rightarrow> map_find nm (downtime_map (snd cg)))"

text \<open>A window in which no sample is pulled and the loop is not told to stop.\<close>

definition zero_window :: "window \<Rightarrow> bool" where
  "zero_window w = (filter (\<lambda>p. p) (pulls w) = [] \<and> \<not> halt w)"

text \<open>
  Two windows for the examples: one in which nothing arrives (and a reconnect
  would find the pipeline failing to start), one in which three samples are
  pulled.
\<close>

definition silent :: window where
  "silent = \<lparr>pulls = [], halt = False, stop_ok = True, start_ok = False\<rparr>"

definition three_frames :: window where
  "three_frames = \<lparr>pulls = [True, True, True], halt = False, stop_ok = True, start_ok = True\<rparr>"

section \<open>Facts about the map operations\<close>

lemma map_find_assign_same: "map_find k (assign k v m) = Some v"
  by (induction m) auto

lemma map_find_assign_other: "k' \<noteq> k \<Longrightarrow> map_find k' (assign k v m) = map_find k' m"
  by (induction m) auto

lemma subscript_assign_same: "subscript k (assign k v m) = (v, assign k v m)"
  by (simp add: subscript_def map_find_assign_same)

lemma assign_assign_same: "assign k v (assign k v' m) = assign k v m"
  by (induction m) auto

lemma subscript_then_assign: "assign k v (snd (subscript k m)) = assign k v m"
  by (auto simp: subscript_def assign_assign_same split: option.splits)

section \<open>Facts about the trace\<close>

lemma pipeline_calls_append: "pipeline_calls (xs @ ys) = pipeline_calls xs @ pipeline_calls ys"
  by (induction xs rule: pipeline_calls.induct) auto

lemma pipeline_calls_stop: "pipeline_calls (stop cam ok) = [(name cam, GST_STATE_NULL)]"
  by (simp add: stop_def)

lemma pipeline_calls_start: "pipeline_calls (start cam ok) = [(name cam, GST_STATE_PLAYING)]"
  by (simp add: start_def)

section \<open>Facts about 32-bit arithmetic\<close>

lemma sint_in_range:
  "- (2 ^ 31) \<le> k \<Longrightarrow> k < 2 ^ 31 \<Longrightarrow> sint (word_of_int k :: cint) = k"
  by (simp add: sint_sbintrunc' signed_take_bit_int_eq_self)

lemma sint_cint_bounds: "- (2 ^ 31) \<le> sint (x :: cint) \<and> sint x < 2 ^ 31"
  using sint_greater_eq [of x] sint_less [of x] by simp

lemma sint_add_nat:
  assumes "0 \<le> sint (c :: cint)" and "sint c + int n < 2 ^ 31"
  shows "sint (c + of_nat n) = sint c + int n"
proof -
  have "c + of_nat n = word_of_int (sint c + int n)" by simp
  moreover have "- (2 ^ 31) \<le> sint c + int n" using assms by simp
  ultimately show ?thesis using assms(2) by (simp only: sint_in_range)
qed

lemma sdiv_nonneg_pos: "0 \<le> (k::int) \<Longrightarrow> 0 < l \<Longrightarrow> k sdiv l = k div l"
  by (simp add: signed_divide_int_def sgn_if)

lemma int_div_positive:
  assumes "0 < sint b"
  shows "\<exists>q. int_div a b = Inr q \<and> sint q = sint a sdiv sint b"
proof -
  have b0: "b \<noteq> 0" using assms by auto
  have r: "sint a sdiv sint b \<in> {- \<bar>sint a\<bar>..\<bar>sint a\<bar>}" by (rule sdiv_int_range)
  have lo: "- (2 ^ 31) \<le> sint a sdiv sint b"
    using r sint_cint_bounds [of a] by auto
  have hi: "sint a sdiv sint b < 2 ^ 31"
  proof (cases "0 \<le> sint a")
    case True
    then show ?thesis using r sint_cint_bounds [of a] by auto
  next
    case False
    then have "sint a sdiv sint b \<le> 0"
      using assms by (simp add: signed_divide_int_def sgn_if pos_imp_zdiv_nonneg_iff)
    then show ?thesis by simp
  qed
  have "sint (word_of_int (sint a sdiv sint b) :: cint) = sint a sdiv sint b"
    using lo hi by (rule sint_in_range)
  then show ?thesis using assms b0 by (simp add: int_div_def)
qed

section \<open>One sampling window\<close>

text \<open>The pass of \<open>Camera::run\<close> when the division succeeds, branch by branch.\<close>

lemma run_body_Inr:
  assumes "int_div (frame_count cam) interval = Inr fps"
  shows "run_body interval a b (cam, g) =
     Inr (cam\<lparr>frame_count := 0\<rparr>,
       (if fps = 0 then
          (let d = fst (subscript (name cam) (downtime_map g)) + 1 in
           if 5 \<le> sint d
           then g\<lparr>fps_map := assign (name cam) fps (fps_map g),
                  downtime_map := assign (name cam) 0 (downtime_map g),
                  trace := trace g @ [Print Cout (''Reconnecting camera: '' @ name cam @ endl)]
                             @ stop cam a @ start cam b\<rparr>
           else g\<lparr>fps_map := assign (name cam) fps (fps_map g),
                  downtime_map := assign (name cam) d (downtime_map g)\<rparr>)
        else g\<lparr>fps_map := assign (name cam) fps (fps_map g),
               downtime_map := assign (name cam) 0 (downtime_map g)\<rparr>))"
  using assms
  by (simp add: run_body_def Let_def split_beta subscript_assign_same emit_def
      subscript_then_assign assign_assign_same stop_def start_def)

lemma run_body_Inl:
  "int_div (frame_count cam) interval = Inl e \<Longrightarrow> run_body interval a b (cam, g) = Inl e"
  by (simp add: run_body_def)

lemma on_new_sample_count:
  "snd (on_new_sample p (cam, g)) =
     (cam\<lparr>frame_count := frame_count cam + (if p then 1 else 0)\<rparr>,
      g\<lparr>trace := trace g @ (if p then [] else
         [Print Cerr (''Failed to pull sample for camera: '' @ uri cam @ endl)])\<rparr>)"
  by (simp add: on_new_sample_def emit_def)

text \<open>
  The callbacks of one window add the number of pulled samples to \<open>frame_count\<close>
  and touch nothing else but the console.
\<close>

lemma deliver_frame_count:
  "\<exists>tr. deliver ps (cam, g) =
     (cam\<lparr>frame_count := frame_count cam + of_nat (length (filter (\<lambda>p. p) ps))\<rparr>,
      g\<lparr>trace := trace g @ tr\<rparr>) \<and> pipeline_calls tr = []"
proof (induction ps arbitrary: cam g)
  case Nil
  show ?case by (rule exI [of _ "[]"]) (simp add: deliver_def)
next
  case (Cons p ps)
  let ?cam1 = "cam\<lparr>frame_count := frame_count cam + (if p then 1 else 0)\<rparr>"
  let ?e = "(if p then [] else
         [Print Cerr (''Failed to pull sample for camera: '' @ uri cam @ endl)])"
  let ?g1 = "g\<lparr>trace := trace g @ ?e\<rparr>"
  have step: "deliver (p # ps) (cam, g) = deliver ps (?cam1, ?g1)"
    by (simp add: deliver_def on_new_sample_count)
  from Cons.IH [of ?cam1 ?g1] obtain tr where
    tr: "deliver ps (?cam1, ?g1) =
       (?cam1\<lparr>frame_count := frame_count ?cam1 + of_nat (length (filter (\<lambda>p. p) ps))\<rparr>,
        ?g1\<lparr>trace := trace ?g1 @ tr\<rparr>)" and pc: "pipeline_calls tr = []"
    by blast
  show ?case
    apply (rule exI [of _ "?e @ tr"])
    apply (simp add: step tr pc pipeline_calls_append add.assoc)
    done
qed

section \<open>The stall policy\<close>

text \<open>
  Claim C1. In every sampling window that \<open>Camera::run\<close> completes, with \<open>d\<close>
  the downtime counter of the stream incremented by one: when the computed fps
  is 0 and \<open>d \<ge> 5\<close>, the pipeline is stopped and then started, with whatever
  answers \<open>a\<close> and \<open>b\<close> the two calls get, and the counter is 0 afterwards;
  when the fps is 0 and \<open>d < 5\<close>, the counter is \<open>d\<close> and nothing is done to
  the pipeline; when the fps is greater than 0, the counter is 0.
\<close>

theorem run_stall_policy:
  assumes "run_body interval a b (cam, g) = Inr (cam', g')"
  shows "\<exists>fps. int_div (frame_count cam) interval = Inr fps \<and>
     (let d = fst (subscript (name cam) (downtime_map g)) + 1 in
       (fps = 0 \<and> 5 \<le> sint d \<longrightarrow>
          map_find (name cam) (downtime_map g') = Some 0 \<and>
          trace g' = trace g @ [Print Cout (''Reconnecting camera: '' @ name cam @ endl)]
                       @ stop cam a @ start cam b \<and>
          pipeline_calls (trace g') =
            pipeline_calls (trace g) @ [(name cam, GST_STATE_NULL), (name cam, GST_STATE_PLAYING)]) \<and>
       (fps = 0 \<and> sint d < 5 \<longrightarrow>
          map_find (name cam) (downtime_map g') = Some d \<and> trace g' = trace g) \<and>
       (0 < sint fps \<longrightarrow>
          map_find (name cam) (downtime_map g') = Some 0 \<and> trace g' = trace g))"
proof (cases "int_div (frame_count cam) interval")
  case (Inl e)
  with assms show ?thesis by (simp add: run_body_def)
next
  case (Inr fps)
  from assms show ?thesis
    unfolding run_body_Inr [OF Inr]
    by (auto simp: Inr Let_def map_find_assign_same pipeline_calls_append
        pipeline_calls_stop pipeline_calls_start split: if_splits)
qed

theorem run_stall_policy_witness:
  "\<exists>cam' g'.
     run_body 1 True False
       (\<lparr>name = ''cam0'', uri = ''rtsp://host/a'', frame_count = 0, running = True\<rparr>,
        \<lparr>fps_map = [], downtime_map = [(''cam0'', 4)], trace = []\<rparr>) = Inr (cam', g') \<and>
     map_find ''cam0'' (downtime_map g') = Some 0 \<and>
     pipeline_calls (trace g') = [(''cam0'', GST_STATE_NULL), (''cam0'', GST_STATE_PLAYING)]"
proof -
  let ?cam = "\<lparr>name = ''cam0'', uri = ''rtsp://host/a'', frame_count = 0, running = True\<rparr>"
  let ?g = "\<lparr>fps_map = [], downtime_map = [(''cam0'', 4 :: cint)], trace = []\<rparr>"
  have d: "int_div (frame_count ?cam) 1 = Inr 0"
    by (simp add: int_div_def)
  obtain cam' g' where r: "run_body 1 True False (?cam, ?g) = Inr (cam', g')"
    unfolding run_body_Inr [OF d] by blast
  from run_stall_policy [OF r]
  have "map_find ''cam0'' (downtime_map g') = Some 0 \<and>
     pipeline_calls (trace g') = [(''cam0'', GST_STATE_NULL), (''cam0'', GST_STATE_PLAYING)]"
    by (simp add: int_div_def subscript_def Let_def pipeline_calls_append
        pipeline_calls_stop pipeline_calls_start)
  with r show ?thesis by blast
qed

section \<open>The published rate\<close>

text \<open>
  Claim C3. For every positive interval and every sampling window: with
  \<open>frame_count\<close> non-negative when the window opens and the frames of the window
  not overflowing it, the pass of \<open>Camera::run\<close> that closes the window
  succeeds, leaves \<open>frame_count = 0\<close>, and stores under the stream's name in
  \<open>fps_map\<close> the number of frames counted divided by the interval, rounded down.
\<close>

theorem window_fps:
  assumes "0 < sint interval"
    and "0 \<le> sint (frame_count cam)"
    and "sint (frame_count cam) + int (length (filter (\<lambda>p. p) ps)) < 2 ^ 31"
  shows "\<exists>cam' g' fps.
     run_body interval a b (deliver ps (cam, g)) = Inr (cam', g') \<and>
     frame_count cam' = 0 \<and>
     map_find (name cam) (fps_map g') = Some fps \<and>
     sint fps = (sint (frame_count cam) + int (length (filter (\<lambda>p. p) ps))) div sint interval"
proof -
  let ?n = "length (filter (\<lambda>p. p) ps)"
  let ?cam1 = "cam\<lparr>frame_count := frame_count cam + of_nat ?n\<rparr>"
  from deliver_frame_count [of ps cam g] obtain tr where
    d: "deliver ps (cam, g) = (?cam1, g\<lparr>trace := trace g @ tr\<rparr>)"
    by blast
  have fc: "sint (frame_count ?cam1) = sint (frame_count cam) + int ?n"
    using assms(2,3) by (simp add: sint_add_nat)
  from int_div_positive [OF assms(1), of "frame_count ?cam1"] obtain fps where
    q: "int_div (frame_count ?cam1) interval = Inr fps"
    and v: "sint fps = sint (frame_count ?cam1) sdiv sint interval"
    by blast
  have "sint fps = (sint (frame_count cam) + int ?n) div sint interval"
    using v fc assms(1,2) by (simp add: sdiv_nonneg_pos)
  moreover obtain cam' g' where
    r: "run_body interval a b (?cam1, g\<lparr>trace := trace g @ tr\<rparr>) = Inr (cam', g')"
    unfolding run_body_Inr [OF q] by blast
  moreover have "frame_count cam' = 0 \<and> map_find (name cam) (fps_map g') = Some fps"
    using r unfolding run_body_Inr [OF q]
    by (auto simp: Let_def map_find_assign_same split: if_splits)
  ultimately show ?thesis using d by auto
qed

theorem window_fps_witness:
  "\<exists>cam' g' fps.
     run_body 2 True True
       (deliver [True, False, True, True, True, True]
          (\<lparr>name = ''cam0'', uri = ''rtsp://host/a'', frame_count = 0, running = True\<rparr>,
           init_globals)) = Inr (cam', g') \<and>
     frame_count cam' = 0 \<and>
     map_find ''cam0'' (fps_map g') = Some fps \<and>
     sint fps = 2"
  using window_fps [of 2
      "\<lparr>name = ''cam0'', uri = ''rtsp://host/a'', frame_count = 0, running = True\<rparr>"
      "[True, False, True, True, True, True]" True True init_globals]
  by simp

section \<open>Runs of several windows\<close>

lemma run_append:
  "run interval (xs @ ys) cg =
     (case run interval xs cg of Inl e \<Rightarrow> Inl e | Inr cg' \<Rightarrow> run interval ys cg')"
proof (induction xs arbitrary: cg)
  case Nil
  show ?case by simp
next
  case (Cons w xs)
  show ?case
  proof (cases "running (fst cg)")
    case False
    then show ?thesis by (cases ys) simp_all
  next
    case True
    then show ?thesis
      by (simp add: Cons.IH split_beta Let_def split: sum.splits)
  qed
qed

lemma int_div_zero_frames: "interval \<noteq> 0 \<Longrightarrow> int_div 0 interval = Inr 0"
  by (simp add: int_div_def)

lemma sint_succ: "sint (d :: cint) < 2 ^ 31 - 1 \<Longrightarrow> sint (d + 1) = sint d + 1"
proof -
  assume a: "sint d < 2 ^ 31 - 1"
  have "d + 1 = word_of_int (sint d + 1)" by simp
  moreover have "- (2 ^ 31) \<le> sint d + 1" using sint_cint_bounds [of d] by simp
  moreover have "sint d + 1 < 2 ^ 31" using a by simp
  ultimately show ?thesis by (simp only: sint_in_range)
qed

text \<open>One window without frames, from a counter value \<open>d\<close>.\<close>
lemma zero_window_step:
  assumes z: "zero_window w" and fc: "frame_count cam = 0" and i: "interval \<noteq> 0"
    and d: "map_find (name cam) (downtime_map g) = Some d"
  shows "\<exists>tr. pipeline_calls tr = [] \<and>
     run_body interval (stop_ok w) (start_ok w) (deliver (pulls w) (cam, g)) =
       Inr (cam,
         if 5 \<le> sint (d + 1)
         then g\<lparr>fps_map := assign (name cam) 0 (fps_map g),
                downtime_map := assign (name cam) 0 (downtime_map g),
                trace := trace g @ tr @ [Print Cout (''Reconnecting camera: '' @ name cam @ endl)]
                           @ stop cam (stop_ok w) @ start cam (start_ok w)\<rparr>
         else g\<lparr>fps_map := assign (name cam) 0 (fps_map g),
                downtime_map := assign (name cam) (d + 1) (downtime_map g),
                trace := trace g @ tr\<rparr>)"
proof -
  from deliver_frame_count [of "pulls w" cam g] obtain tr where
    dl: "deliver (pulls w) (cam, g) = (cam, g\<lparr>trace := trace g @ tr\<rparr>)"
    and pc: "pipeline_calls tr = []"
    using z fc by (auto simp: zero_window_def)
  have q: "int_div (frame_count cam) interval = Inr 0"
    using fc i by (simp add: int_div_zero_frames)
  have cam0: "cam\<lparr>frame_count := 0\<rparr> = cam" using fc by simp
  show ?thesis
    apply (rule exI [of _ tr])
    apply (simp add: pc dl run_body_Inr [OF q] cam0 subscript_def d Let_def stop_def start_def)
    done
qed


lemma run_step_nohalt:
  "running cam \<Longrightarrow> \<not> halt w \<Longrightarrow>
   run interval (w # ws) (cam, g) =
     (case run_body interval (stop_ok w) (start_ok w) (deliver (pulls w) (cam, g)) of
        Inl e \<Rightarrow> Inl e | Inr cg' \<Rightarrow> run interval ws cg')"
  by (simp add: split_beta)

lemma zero_windows_below:
  assumes "\<forall>w\<in>set ws. zero_window w" and "frame_count cam = 0" and "running cam"
    and "interval \<noteq> 0"
    and "map_find (name cam) (downtime_map g) = Some d"
    and "- 1 \<le> sint d" and "sint d + int (length ws) \<le> 4"
  shows "\<exists>g'. run interval ws (cam, g) = Inr (cam, g') \<and>
     map_find (name cam) (downtime_map g') = Some (d + of_nat (length ws)) \<and>
     pipeline_calls (trace g') = pipeline_calls (trace g)"
  using assms
proof (induction ws arbitrary: g d)
  case Nil
  then show ?case by simp
next
  case (Cons w ws)
  have z: "zero_window w" and nh: "\<not> halt w" using Cons.prems(1) by (auto simp: zero_window_def)
  have sd: "sint (d + 1) = sint d + 1"
    using Cons.prems(7) by (intro sint_succ) simp
  have lt: "\<not> 5 \<le> sint (d + 1)" using sd Cons.prems(7) by simp
  from zero_window_step [OF z Cons.prems(2) Cons.prems(4) Cons.prems(5)] lt
  obtain tr where pc: "pipeline_calls tr = []"
    and st: "run_body interval (stop_ok w) (start_ok w) (deliver (pulls w) (cam, g)) =
       Inr (cam, g\<lparr>fps_map := assign (name cam) 0 (fps_map g),
                downtime_map := assign (name cam) (d + 1) (downtime_map g),
                trace := trace g @ tr\<rparr>)"
    by auto
  let ?g1 = "g\<lparr>fps_map := assign (name cam) 0 (fps_map g),
                downtime_map := assign (name cam) (d + 1) (downtime_map g),
                trace := trace g @ tr\<rparr>"
  have "\<exists>g'. run interval ws (cam, ?g1) = Inr (cam, g') \<and>
     map_find (name cam) (downtime_map g') = Some (d + 1 + of_nat (length ws)) \<and>
     pipeline_calls (trace g') = pipeline_calls (trace ?g1)"
    apply (rule Cons.IH)
    using Cons.prems sd by (simp_all add: map_find_assign_same)
  then obtain g' where r: "run interval ws (cam, ?g1) = Inr (cam, g')"
    and m: "map_find (name cam) (downtime_map g') = Some (d + 1 + of_nat (length ws))"
    and p: "pipeline_calls (trace g') = pipeline_calls (trace ?g1)"
    by blast
  have "run interval (w # ws) (cam, g) = Inr (cam, g')"
    unfolding run_step_nohalt [OF Cons.prems(3) nh] st using r by simp
  moreover have "d + 1 + of_nat (length ws) = d + of_nat (length (w # ws))" by simp
  ultimately show ?case using m p pc by (auto simp: pipeline_calls_append)
qed

lemma Camera_ctor_facts:
  "frame_count (fst (Camera_ctor nm u ok g)) = 0"
  "running (fst (Camera_ctor nm u ok g))"
  "name (fst (Camera_ctor nm u ok g)) = nm"
  "map_find nm (downtime_map (snd (Camera_ctor nm u ok g))) = Some (- 1)"
  "pipeline_calls (trace (snd (Camera_ctor nm u ok g))) = pipeline_calls (trace g)"
  "fps_map (snd (Camera_ctor nm u ok g)) = fps_map g"
  by (simp_all add: Camera_ctor_def Let_def emit_def map_find_assign_same pipeline_calls_append)


section \<open>The first reconnect of a silent stream\<close>

text \<open>
  Claim C2, as stated, at a concrete input: a camera is constructed and its loop
  sees five windows without a frame, interval 1. No pipeline call has been made
  after the fifth window and the counter is 4, not 0.
\<close>

theorem five_zero_windows_no_reconnect:
  "calls_after (run 1 [silent, silent, silent, silent, silent]
      (Camera_ctor ''cam0'' ''rtsp://host/a'' True init_globals)) = Some [] \<and>
   downtime_after ''cam0'' (run 1 [silent, silent, silent, silent, silent]
      (Camera_ctor ''cam0'' ''rtsp://host/a'' True init_globals)) = Some 4"
  by (simp add: silent_def three_frames_def downtime_after_def calls_after_def Camera_ctor_def
      init_globals_def emit_def deliver_def on_new_sample_def run_body_def int_div_def
      subscript_def Let_def)

text \<open>
  Claim C2, amended. The constructor stores \<open>-1\<close> as the counter, so for a
  stream whose windows deliver no frame from the start and any interval other
  than 0: after each of the first five windows no pipeline call has been made
  and the counter is the number of windows minus one; the sixth window stops and
  starts the pipeline, once, and leaves the counter at 0.
\<close>

theorem first_reconnect_after_six:
  assumes "length ws = 6" and "\<forall>w\<in>set ws. zero_window w" and "interval \<noteq> 0"
  shows "calls_after (run interval ws (Camera_ctor nm u ok g)) =
           Some (pipeline_calls (trace g) @ [(nm, GST_STATE_NULL), (nm, GST_STATE_PLAYING)]) \<and>
         downtime_after nm (run interval ws (Camera_ctor nm u ok g)) = Some 0 \<and>
         (\<forall>k<6. calls_after (run interval (take k ws) (Camera_ctor nm u ok g)) =
                    Some (pipeline_calls (trace g)) \<and>
                 downtime_after nm (run interval (take k ws) (Camera_ctor nm u ok g)) =
                    Some (of_nat k - 1))"
proof -
  obtain cam g0 where c: "Camera_ctor nm u ok g = (cam, g0)" by (cases "Camera_ctor nm u ok g")
  have fc: "frame_count cam = 0" and rn: "running cam" and nm: "name cam = nm"
    and d0: "map_find (name cam) (downtime_map g0) = Some (- 1)"
    and p0: "pipeline_calls (trace g0) = pipeline_calls (trace g)"
    using Camera_ctor_facts [of nm u ok g] by (simp_all add: c)
  have below: "\<exists>g'. run interval (take k ws) (cam, g0) = Inr (cam, g') \<and>
       map_find (name cam) (downtime_map g') = Some (of_nat k - 1) \<and>
       pipeline_calls (trace g') = pipeline_calls (trace g)" if "k < 6" for k
  proof -
    have "\<forall>w\<in>set (take k ws). zero_window w" using assms(2) by (auto dest: in_set_takeD)
    moreover have "sint (- 1 :: cint) + int (length (take k ws)) \<le> 4"
      using that assms(1) by simp
    ultimately show ?thesis
      using zero_windows_below [of "take k ws" cam interval g0 "- 1"] fc rn assms(1,3) d0 p0 that
      by (simp add: min_def)
  qed
  from below [of 5] obtain g5 where
    r5: "run interval (take 5 ws) (cam, g0) = Inr (cam, g5)"
    and m5: "map_find (name cam) (downtime_map g5) = Some 4"
    and p5: "pipeline_calls (trace g5) = pipeline_calls (trace g)"
    by auto
  let ?w = "ws ! 5"
  have w: "ws = take 5 ws @ [?w]"
    using assms(1) take_Suc_conv_app_nth [of 5 ws] by simp
  have zw: "zero_window ?w" using assms(1,2) by simp
  then have nh: "\<not> halt ?w" by (simp add: zero_window_def)
  from zero_window_step [OF zw fc assms(3) m5]
  obtain tr where pc: "pipeline_calls tr = []"
    and st: "run_body interval (stop_ok ?w) (start_ok ?w) (deliver (pulls ?w) (cam, g5)) =
       Inr (cam, g5\<lparr>fps_map := assign (name cam) 0 (fps_map g5),
                downtime_map := assign (name cam) 0 (downtime_map g5),
                trace := trace g5 @ tr @ [Print Cout (''Reconnecting camera: '' @ name cam @ endl)]
                           @ stop cam (stop_ok ?w) @ start cam (start_ok ?w)\<rparr>)"
    by auto
  let ?g6 = "g5\<lparr>fps_map := assign (name cam) 0 (fps_map g5),
                downtime_map := assign (name cam) 0 (downtime_map g5),
                trace := trace g5 @ tr @ [Print Cout (''Reconnecting camera: '' @ name cam @ endl)]
                           @ stop cam (stop_ok ?w) @ start cam (start_ok ?w)\<rparr>"
  have "run interval [?w] (cam, g5) = Inr (cam, ?g6)"
    unfolding run_step_nohalt [OF rn nh] st by simp
  then have "run interval (take 5 ws @ [?w]) (cam, g0) = Inr (cam, ?g6)"
    by (simp only: run_append r5 sum.case)
  then have r6: "run interval ws (cam, g0) = Inr (cam, ?g6)"
    using w by simp
  have c6: "pipeline_calls (trace ?g6) =
      pipeline_calls (trace g) @ [(nm, GST_STATE_NULL), (nm, GST_STATE_PLAYING)]"
    by (simp add: pipeline_calls_append pipeline_calls_stop pipeline_calls_start pc p5 nm)
  have d6: "map_find nm (downtime_map ?g6) = Some 0"
    using nm by (simp add: map_find_assign_same)
  have last: "calls_after (run interval ws (Camera_ctor nm u ok g)) =
           Some (pipeline_calls (trace g) @ [(nm, GST_STATE_NULL), (nm, GST_STATE_PLAYING)]) \<and>
         downtime_after nm (run interval ws (Camera_ctor nm u ok g)) = Some 0"
    unfolding c r6 calls_after_def downtime_after_def using c6 d6 by simp
  have before: "calls_after (run interval (take k ws) (Camera_ctor nm u ok g)) =
                    Some (pipeline_calls (trace g)) \<and>
                 downtime_after nm (run interval (take k ws) (Camera_ctor nm u ok g)) =
                    Some (of_nat k - 1)" if "k < 6" for k
    using below [OF that] nm unfolding c calls_after_def downtime_after_def by auto
  from last before show ?thesis by blast
qed


theorem first_reconnect_after_six_witness:
  "calls_after (run 1 [silent, silent, silent, silent, silent, silent]
      (Camera_ctor ''cam0'' ''rtsp://host/a'' True init_globals)) =
     Some [(''cam0'', GST_STATE_NULL), (''cam0'', GST_STATE_PLAYING)] \<and>
   downtime_after ''cam0'' (run 1 [silent, silent, silent, silent, silent, silent]
      (Camera_ctor ''cam0'' ''rtsp://host/a'' True init_globals)) = Some 0"
  using first_reconnect_after_six [of "[silent, silent, silent, silent, silent, silent]" 1
      "''cam0''" "''rtsp://host/a''" True init_globals]
  by (simp add: silent_def zero_window_def init_globals_def)

section \<open>The range of the downtime counter\<close>

lemma run_body_known:
  assumes "int_div (frame_count cam) interval = Inr fps"
    and "map_find (name cam) (downtime_map g) = Some d"
  shows "run_body interval a b (cam, g) =
     Inr (cam\<lparr>frame_count := 0\<rparr>,
       (if fps = 0 then
          (if 5 \<le> sint (d + 1)
           then g\<lparr>fps_map := assign (name cam) fps (fps_map g),
                  downtime_map := assign (name cam) 0 (downtime_map g),
                  trace := trace g @ [Print Cout (''Reconnecting camera: '' @ name cam @ endl)]
                             @ stop cam a @ start cam b\<rparr>
           else g\<lparr>fps_map := assign (name cam) fps (fps_map g),
                  downtime_map := assign (name cam) (d + 1) (downtime_map g)\<rparr>)
        else g\<lparr>fps_map := assign (name cam) fps (fps_map g),
               downtime_map := assign (name cam) 0 (downtime_map g)\<rparr>))"
  unfolding run_body_Inr [OF assms(1)] by (simp add: subscript_def assms(2) Let_def)

lemma run_body_counter:
  assumes r: "run_body interval a b (cam, g) = Inr (cam', g')"
    and d: "map_find (name cam) (downtime_map g) = Some d"
    and lo: "- 1 \<le> sint d" and hi: "sint d \<le> 4"
  shows "\<exists>fps. name cam' = name cam \<and>
        int_div (frame_count cam) interval = Inr fps \<and>
        map_find (name cam) (fps_map g') = Some fps \<and>
        map_find (name cam) (downtime_map g') =
          Some (if fps \<noteq> 0 then 0 else if sint d = 4 then 0 else d + 1)"
proof (cases "int_div (frame_count cam) interval")
  case (Inl e)
  with r show ?thesis by (simp add: run_body_def)
next
  case (Inr fps)
  have sd: "sint (d + 1) = sint d + 1" using hi by (intro sint_succ) simp
  have thr: "5 \<le> sint (d + 1) \<longleftrightarrow> sint d = 4" using sd lo hi by auto
  let ?G = "(if fps = 0 then
          (if 5 \<le> sint (d + 1)
           then g\<lparr>fps_map := assign (name cam) fps (fps_map g),
                  downtime_map := assign (name cam) 0 (downtime_map g),
                  trace := trace g @ [Print Cout (''Reconnecting camera: '' @ name cam @ endl)]
                             @ stop cam a @ start cam b\<rparr>
           else g\<lparr>fps_map := assign (name cam) fps (fps_map g),
                  downtime_map := assign (name cam) (d + 1) (downtime_map g)\<rparr>)
        else g\<lparr>fps_map := assign (name cam) fps (fps_map g),
               downtime_map := assign (name cam) 0 (downtime_map g)\<rparr>)"
  from r have "Inr (cam', g') = (Inr (cam\<lparr>frame_count := 0\<rparr>, ?G) :: error + Camera \<times> globals)"
    unfolding run_body_known [OF Inr d] by (rule sym)
  then have c': "cam' = cam\<lparr>frame_count := 0\<rparr>" and g': "g' = ?G"
    by (simp_all only: sum.inject prod.inject)
  have "map_find (name cam) (fps_map g') = Some fps"
    unfolding g' by (simp add: map_find_assign_same)
  moreover have "map_find (name cam) (downtime_map g') =
          Some (if fps \<noteq> 0 then 0 else if sint d = 4 then 0 else d + 1)"
    unfolding g' by (simp add: map_find_assign_same thr)
  ultimately show ?thesis using c' Inr by simp
qed

lemma counter_step_range:
  assumes "- 1 \<le> sint (d :: cint)" and "sint d \<le> 4"
  shows "0 \<le> sint (if sint d = 4 then 0 else d + 1) \<and> sint (if sint d = 4 then 0 else d + 1) \<le> 4"
proof -
  have "sint (d + 1) = sint d + 1" using assms(2) by (intro sint_succ) simp
  then show ?thesis using assms by auto
qed

lemma run_counter_range:
  assumes "run interval ws (cam, g) = Inr (cam', g')"
    and "map_find (name cam) (downtime_map g) = Some d"
    and "- 1 \<le> sint d" and "sint d \<le> 4"
  shows "name cam' = name cam \<and>
     (\<exists>d'. map_find (name cam) (downtime_map g') = Some d' \<and> - 1 \<le> sint d' \<and> sint d' \<le> 4 \<and>
        (ws = [] \<longrightarrow> d' = d) \<and>
        (0 \<le> sint d \<or> (ws \<noteq> [] \<and> running cam) \<longrightarrow> 0 \<le> sint d'))"
  using assms
proof (induction ws arbitrary: cam g d)
  case Nil
  then show ?case by auto
next
  case (Cons w ws)
  show ?case
  proof (cases "running cam")
    case False
    with Cons.prems show ?thesis by auto
  next
    case True
    from deliver_frame_count [of "pulls w" cam g] obtain tr where
      dl: "deliver (pulls w) (cam, g) =
        (cam\<lparr>frame_count := frame_count cam + of_nat (length (filter (\<lambda>p. p) (pulls w)))\<rparr>,
         g\<lparr>trace := trace g @ tr\<rparr>)"
      by blast
    let ?cam1 = "cam\<lparr>frame_count := frame_count cam + of_nat (length (filter (\<lambda>p. p) (pulls w)))\<rparr>"
    let ?cam2 = "if halt w then set_running False ?cam1 else ?cam1"
    let ?g1 = "g\<lparr>trace := trace g @ tr\<rparr>"
    have unf: "run interval (w # ws) (cam, g) =
       (case run_body interval (stop_ok w) (start_ok w) (?cam2, ?g1) of
          Inl e \<Rightarrow> Inl e | Inr cg' \<Rightarrow> run interval ws cg')"
      using True by (simp add: dl)
    from Cons.prems(1) obtain cam3 g3 where
      b: "run_body interval (stop_ok w) (start_ok w) (?cam2, ?g1) = Inr (cam3, g3)"
      and rest: "run interval ws (cam3, g3) = Inr (cam', g')"
      unfolding unf by (auto split: sum.splits)
    have n2: "name ?cam2 = name cam" by (simp add: set_running_def)
    have d1: "map_find (name ?cam2) (downtime_map ?g1) = Some d"
      using Cons.prems(2) by (simp add: set_running_def)
    from run_body_counter [OF b d1 Cons.prems(3,4)] obtain fps :: cint where
      n3: "name cam3 = name cam"
      and d3: "map_find (name cam) (downtime_map g3) =
          Some (if fps \<noteq> 0 then 0 else if sint d = 4 then 0 else d + 1)"
      unfolding n2 by blast
    let ?d3 = "if fps \<noteq> 0 then 0 else if sint d = 4 then 0 else d + 1"
    have rg: "0 \<le> sint ?d3 \<and> sint ?d3 \<le> 4"
      using counter_step_range [OF Cons.prems(3,4)] by auto
    have d3': "map_find (name cam3) (downtime_map g3) = Some ?d3"
      using d3 n3 by simp
    have lo3: "- 1 \<le> sint ?d3" and hi3: "sint ?d3 \<le> 4" using rg by auto
    from Cons.IH [OF rest d3' lo3 hi3] rg
    show ?thesis using n3 by auto
  qed
qed



text \<open>
  Claim C4, as stated, at concrete inputs: right after the construction of the
  camera the counter is \<open>-1\<close>, a negative number; and with interval 5 a second
  window with 3 frames (a positive frame count, fps 0) leaves the counter at 1
  instead of resetting it.
\<close>

theorem downtime_negative_after_construction:
  "map_find ''cam0'' (downtime_map (snd (Camera_ctor ''cam0'' ''rtsp://host/a'' True init_globals))) = Some (- 1) \<and>
   sint (- 1 :: cint) < 0 \<and>
   downtime_after ''cam0'' (run 5 [three_frames, three_frames] (Camera_ctor ''cam0'' ''rtsp://host/a'' True init_globals)) = Some 1"
  by (simp add: silent_def three_frames_def downtime_after_def calls_after_def Camera_ctor_def
      init_globals_def emit_def deliver_def on_new_sample_def run_body_def int_div_def
      subscript_def Let_def)

text \<open>
  Claim C4, amended. From the construction of a camera on, after any number of
  windows of its loop, the counter \<open>d\<close> of the stream is an integer with
  \<open>-1 \<le> d \<le> 4\<close>: it is \<open>-1\<close> until the first window has been sampled and
  non-negative from then on. The next window stores 0 when its fps is not 0, and
  when its fps is 0 it stores \<open>d + 1\<close>, or 0 when \<open>d\<close> was 4 (the reconnect).
\<close>

theorem downtime_range:
  assumes "run interval ws (Camera_ctor nm u ok g) = Inr (cam', g')"
  shows "\<exists>d. map_find nm (downtime_map g') = Some d \<and>
     - 1 \<le> sint d \<and> sint d \<le> 4 \<and>
     (ws = [] \<longrightarrow> sint d = - 1) \<and>
     (ws \<noteq> [] \<longrightarrow> 0 \<le> sint d) \<and>
     (\<forall>ps a b cam'' g''.
        run_body interval a b (deliver ps (cam', g')) = Inr (cam'', g'') \<longrightarrow>
        (\<exists>fps. map_find nm (fps_map g'') = Some fps \<and>
           (fps \<noteq> 0 \<longrightarrow> map_find nm (downtime_map g'') = Some 0) \<and>
           (fps = 0 \<longrightarrow> map_find nm (downtime_map g'') =
                            Some (if sint d = 4 then 0 else d + 1))))"
proof -
  obtain cam g0 where c: "Camera_ctor nm u ok g = (cam, g0)" by (cases "Camera_ctor nm u ok g")
  have rn: "running cam" and nm: "name cam = nm"
    and d0: "map_find (name cam) (downtime_map g0) = Some (- 1)"
    using Camera_ctor_facts [of nm u ok g] by (simp_all add: c)
  from assms have r: "run interval ws (cam, g0) = Inr (cam', g')" by (simp add: c)
  from run_counter_range [OF r d0] rn obtain d where
    n': "name cam' = nm"
    and d: "map_find nm (downtime_map g') = Some d"
    and rg: "- 1 \<le> sint d" "sint d \<le> 4"
    and e: "ws = [] \<longrightarrow> d = - 1"
    and p: "ws \<noteq> [] \<longrightarrow> 0 \<le> sint d"
    unfolding nm by auto
  have nxt: "\<exists>fps. map_find nm (fps_map g'') = Some fps \<and>
           (fps \<noteq> 0 \<longrightarrow> map_find nm (downtime_map g'') = Some 0) \<and>
           (fps = 0 \<longrightarrow> map_find nm (downtime_map g'') =
                            Some (if sint d = 4 then 0 else d + 1))"
    if b: "run_body interval a b (deliver ps (cam', g')) = Inr (cam'', g'')"
    for ps a b cam'' g''
  proof -
    from deliver_frame_count [of ps cam' g'] obtain tr where
      dl: "deliver ps (cam', g') =
        (cam'\<lparr>frame_count := frame_count cam' + of_nat (length (filter (\<lambda>p. p) ps))\<rparr>,
         g'\<lparr>trace := trace g' @ tr\<rparr>)"
      by blast
    let ?c = "cam'\<lparr>frame_count := frame_count cam' + of_nat (length (filter (\<lambda>p. p) ps))\<rparr>"
    let ?g = "g'\<lparr>trace := trace g' @ tr\<rparr>"
    have b': "run_body interval a b (?c, ?g) = Inr (cam'', g'')" using b dl by simp
    have d': "map_find (name ?c) (downtime_map ?g) = Some d" using d n' by simp
    from run_body_counter [OF b' d' rg] show ?thesis using n' by auto
  qed
  have "\<forall>ps a b cam'' g''.
        run_body interval a b (deliver ps (cam', g')) = Inr (cam'', g'') \<longrightarrow>
        (\<exists>fps. map_find nm (fps_map g'') = Some fps \<and>
           (fps \<noteq> 0 \<longrightarrow> map_find nm (downtime_map g'') = Some 0) \<and>
           (fps = 0 \<longrightarrow> map_find nm (downtime_map g'') =
                            Some (if sint d = 4 then 0 else d + 1)))"
    by (intro allI impI) (rule nxt)
  with d rg e p show ?thesis
    by (intro exI [of _ d]) simp
qed


theorem downtime_range_witness:
  "\<exists>cam' g' d.
     run 5 [three_frames, three_frames] (Camera_ctor ''cam0'' ''rtsp://host/a'' True init_globals) = Inr (cam', g') \<and>
     map_find ''cam0'' (downtime_map g') = Some d \<and> 0 \<le> sint d \<and> sint d \<le> 4"
proof -
  have "\<exists>cam' g'. run 5 [three_frames, three_frames] (Camera_ctor ''cam0'' ''rtsp://host/a'' True init_globals) = Inr (cam', g')"
    by (simp add: silent_def three_frames_def downtime_after_def calls_after_def Camera_ctor_def
      init_globals_def emit_def deliver_def on_new_sample_def run_body_def int_div_def
      subscript_def Let_def)
  then obtain cam' g' where r: "run 5 [three_frames, three_frames] (Camera_ctor ''cam0'' ''rtsp://host/a'' True init_globals) = Inr (cam', g')"
    by blast
  from downtime_range [OF r] obtain d :: cint where
    "map_find ''cam0'' (downtime_map g') = Some d" and "0 \<le> sint d" and "sint d \<le> 4"
    by auto
  with r show ?thesis by blast
qed

section \<open>The status registry\<close>

lemma keys_assign: "fst ` set (assign k v m) = insert k (fst ` set m)"
  by (induction k v m rule: assign.induct) (simp_all add: insert_commute)

lemma in_assign:
  assumes "(a, b) \<in> set (assign k v m)"
  shows "a = k \<or> a \<in> fst ` set m"
proof -
  have "a \<in> fst ` set (assign k v m)" using assms by (rule rev_image_eqI) simp
  then show ?thesis by (simp add: keys_assign)
qed

lemma sorted_assign:
  "sorted_wrt (<) (map fst m) \<Longrightarrow> sorted_wrt (<) (map fst (assign k v m))"
proof (induction m)
  case Nil
  show ?case by simp
next
  case (Cons e m)
  obtain k' v' where e: "e = (k', v')" by (cases e)
  from Cons show ?case
    by (auto simp: e dest!: in_assign)
qed

lemma one_entry:
  "distinct (map fst m) \<Longrightarrow> k \<in> set (map fst m) \<Longrightarrow> length (filter (\<lambda>e. fst e = k) m) = 1"
proof (induction m)
  case Nil
  then show ?case by simp
next
  case (Cons e m)
  show ?case
  proof (cases "fst e = k")
    case True
    with Cons.prems have "k \<notin> fst ` set m" by simp
    then have "filter (\<lambda>e. fst e = k) m = []"
      by (auto simp: filter_empty_conv image_iff)
    with True show ?thesis by simp
  next
    case False
    with Cons show ?thesis by auto
  qed
qed

lemma run_body_fps_map:
  assumes "run_body interval a b (cam, g) = Inr (cam', g')"
  shows "\<exists>fps. fps_map g' = assign (name cam) fps (fps_map g)"
proof (cases "int_div (frame_count cam) interval")
  case (Inl e)
  with assms show ?thesis by (simp add: run_body_def)
next
  case (Inr fps)
  from assms show ?thesis
    unfolding run_body_Inr [OF Inr]
    by (auto simp: Let_def split: if_splits)
qed

lemma apply_op_fps_map:
  assumes "apply_op x g = Inr g'"
  shows "fps_map g' = fps_map g \<and> sampled_names [x] = [] \<or>
         (\<exists>fps n. sampled_names [x] = [n] \<and> fps_map g' = assign n fps (fps_map g))"
proof (cases x)
  case (Construct nm u ok)
  with assms show ?thesis by (auto simp: Camera_ctor_def Let_def emit_def)
next
  case (Sample cam interval a b)
  with assms obtain cam' where "run_body interval a b (cam, g) = Inr (cam', g')"
    by (auto split: sum.splits)
  from run_body_fps_map [OF this] show ?thesis using Sample by auto
next
  case (NewSample cam pulled)
  with assms show ?thesis by (auto simp: on_new_sample_def emit_def)
next
  case (Report stamp)
  with assms show ?thesis by (auto simp: print_fps_body_def emit_def)
qed

lemma sampled_names_Cons: "sampled_names (x # xs) = sampled_names [x] @ sampled_names xs"
  by (cases x) simp_all

lemma apply_ops_fps_map:
  assumes "apply_ops ops g = Inr g'" and "sorted_wrt (<) (map fst (fps_map g))"
  shows "sorted_wrt (<) (map fst (fps_map g')) \<and>
         set (map fst (fps_map g')) = set (map fst (fps_map g)) \<union> set (sampled_names ops)"
  using assms
proof (induction ops arbitrary: g)
  case Nil
  then show ?case by simp
next
  case (Cons x xs)
  from Cons.prems(1) obtain g1 where s: "apply_op x g = Inr g1" and r: "apply_ops xs g1 = Inr g'"
    by (auto split: sum.splits)
  from apply_op_fps_map [OF s] have
    g1: "sorted_wrt (<) (map fst (fps_map g1)) \<and>
       set (map fst (fps_map g1)) = set (map fst (fps_map g)) \<union> set (sampled_names [x])"
  proof (elim disjE exE conjE)
    assume "fps_map g1 = fps_map g" and "sampled_names [x] = []"
    then show ?thesis using Cons.prems(2) by simp
  next
    fix fps n
    assume "sampled_names [x] = [n]" and "fps_map g1 = assign n fps (fps_map g)"
    then show ?thesis using Cons.prems(2) by (simp add: sorted_assign keys_assign)
  qed
  from Cons.IH [OF r] g1 show ?case
    by (simp add: sampled_names_Cons [of x xs] Un_assoc)
qed

lemma apply_ops_keys_mono:
  assumes "apply_ops ops g = Inr g'"
  shows "fst ` set (fps_map g) \<subseteq> fst ` set (fps_map g')"
  using assms
proof (induction ops arbitrary: g)
  case Nil
  then show ?case by simp
next
  case (Cons x xs)
  from Cons.prems obtain g1 where s: "apply_op x g = Inr g1" and r: "apply_ops xs g1 = Inr g'"
    by (auto split: sum.splits)
  from apply_op_fps_map [OF s] have "fst ` set (fps_map g) \<subseteq> fst ` set (fps_map g1)"
  proof (elim disjE exE conjE)
    assume "fps_map g1 = fps_map g"
    then show ?thesis by simp
  next
    fix fps n
    assume "fps_map g1 = assign n fps (fps_map g)"
    then show ?thesis by (simp add: keys_assign subset_insertI)
  qed
  with Cons.IH [OF r] show ?case by blast
qed

text \<open>
  Claim C5. In every run, after any sequence of constructions, samplings,
  callbacks and reports that the program completes from its initial state,
  \<open>fps_map\<close> holds exactly one entry for the name of every stream that has been
  sampled; and no sequence of these operations, from any state, removes a key
  from \<open>fps_map\<close>.
\<close>

theorem registry_entries:
  assumes "apply_ops ops init_globals = Inr g"
  shows "(\<forall>n\<in>set (sampled_names ops). length (filter (\<lambda>e. fst e = n) (fps_map g)) = 1) \<and>
         (\<forall>ops' g0 g'. apply_ops ops' g0 = Inr g' \<longrightarrow>
             set (map fst (fps_map g0)) \<subseteq> set (map fst (fps_map g')))"
proof -
  have s0: "sorted_wrt (<) (map fst (fps_map init_globals))" by (simp add: init_globals_def)
  from apply_ops_fps_map [OF assms s0] have
    srt: "sorted_wrt (<) (map fst (fps_map g))"
    and keys: "set (map fst (fps_map g)) = set (sampled_names ops)"
    by (simp_all add: init_globals_def)
  have dist: "distinct (map fst (fps_map g))" using srt by (simp add: strict_sorted_iff)
  have "\<forall>n\<in>set (sampled_names ops). length (filter (\<lambda>e. fst e = n) (fps_map g)) = 1"
  proof
    fix n
    assume "n \<in> set (sampled_names ops)"
    then have "n \<in> set (map fst (fps_map g))" using keys by simp
    with dist show "length (filter (\<lambda>e. fst e = n) (fps_map g)) = 1" by (rule one_entry)
  qed
  moreover have "\<forall>ops' g0 g'. apply_ops ops' g0 = Inr g' \<longrightarrow>
             set (map fst (fps_map g0)) \<subseteq> set (map fst (fps_map g'))"
    using apply_ops_keys_mono by simp
  ultimately show ?thesis by blast
qed


theorem registry_entries_witness:
  "\<exists>g. apply_ops
        [Construct ''cam1'' ''rtsp://host/b'' True,
         Sample \<lparr>name = ''cam1'', uri = ''rtsp://host/b'', frame_count = 24, running = True\<rparr> 2 True True,
         Report ''03:11:2026 10:00:00'',
         Sample \<lparr>name = ''cam0'', uri = ''rtsp://host/a'', frame_count = 0, running = True\<rparr> 2 True True,
         Sample \<lparr>name = ''cam1'', uri = ''rtsp://host/b'', frame_count = 7, running = True\<rparr> 2 True True]
        init_globals = Inr g \<and>
      length (filter (\<lambda>e. fst e = ''cam1'') (fps_map g)) = 1 \<and>
      length (filter (\<lambda>e. fst e = ''cam0'') (fps_map g)) = 1"
proof -
  let ?ops = "[Construct ''cam1'' ''rtsp://host/b'' True,
         Sample \<lparr>name = ''cam1'', uri = ''rtsp://host/b'', frame_count = 24, running = True\<rparr> 2 True True,
         Report ''03:11:2026 10:00:00'',
         Sample \<lparr>name = ''cam0'', uri = ''rtsp://host/a'', frame_count = 0, running = True\<rparr> 2 True True,
         Sample \<lparr>name = ''cam1'', uri = ''rtsp://host/b'', frame_count = 7, running = True\<rparr> 2 True True]"
  have "\<exists>g. apply_ops ?ops init_globals = Inr g"
    by (simp add: Camera_ctor_def init_globals_def emit_def run_body_def int_div_def
        subscript_def Let_def print_fps_body_def)
  then obtain g where r: "apply_ops ?ops init_globals = Inr g" by blast
  from registry_entries [OF r] have
    "length (filter (\<lambda>e. fst e = ''cam1'') (fps_map g)) = 1 \<and>
     length (filter (\<lambda>e. fst e = ''cam0'') (fps_map g)) = 1"
    by simp
  with r show ?thesis by blast
qed


section \<open>The report\<close>

lemma print_entries_eq:
  "print_entries (current + length m) current m = comma_separated (map spec_entry m)"
proof (induction m arbitrary: current)
  case Nil
  show ?case by simp
next
  case (Cons e rest)
  have ent: "(if sint (snd e) < 5
          then ESC @ ''[1;31m'' @ fst e @ '': '' @ to_string (snd e) @ '' FPS'' @ ESC @ ''[0m''
          else fst e @ '': '' @ to_string (snd e) @ '' FPS'') = spec_entry e"
    by (simp add: spec_entry_def spec_highlight_def spec_item_def)
  have ih: "print_entries (current + length (e # rest)) (current + 1) rest =
      comma_separated (map spec_entry rest)"
    using Cons.IH [of "current + 1"] by simp
  show ?case
  proof (cases rest)
    case Nil
    then show ?thesis using ent by (simp add: Let_def)
  next
    case (Cons e' rest')
    have "print_entries (current + length (e # rest)) current (e # rest) =
        spec_entry e @ '', '' @ print_entries (current + length (e # rest)) (current + 1) rest"
      unfolding print_entries.simps Let_def ent using Cons by simp
    then show ?thesis unfolding ih using Cons by simp
  qed
qed

lemma print_line_eq:
  "print_line stamp m =
     ''['' @ ESC @ ''[1;34m'' @ stamp @ '']'' @ ESC @ ''[0m ''
     @ comma_separated (map spec_entry m) @ endl"
  using print_entries_eq [of 0 m] by (simp add: print_line_def)

lemma digit_char_no_lf: "digit_char d \<noteq> CHR 0x0A"
proof -
  have "''0123456789'' ! (d mod 10) \<in> set ''0123456789''"
    by (rule nth_mem) simp
  then show ?thesis by (auto simp: digit_char_def)
qed

lemma string_of_nat_no_lf: "CHR 0x0A \<notin> set (string_of_nat n)"
proof (induction n rule: string_of_nat.induct)
  case (1 n)
  show ?case
  proof (cases "n < 10")
    case True
    then show ?thesis using digit_char_no_lf [of n] by (subst string_of_nat.simps) simp
  next
    case False
    then show ?thesis using 1 digit_char_no_lf [of "n mod 10"]
      by (subst string_of_nat.simps) simp
  qed
qed

lemma to_string_no_lf: "CHR 0x0A \<notin> set (to_string i)"
  by (simp add: to_string_def string_of_nat_no_lf)

lemma spec_entry_no_lf: "CHR 0x0A \<notin> set (fst e) \<Longrightarrow> CHR 0x0A \<notin> set (spec_entry e)"
  by (simp add: spec_entry_def spec_highlight_def spec_item_def ESC_def to_string_no_lf)

lemma comma_separated_no_lf:
  "\<forall>x\<in>set xs. CHR 0x0A \<notin> set x \<Longrightarrow> CHR 0x0A \<notin> set (comma_separated xs)"
  by (induction xs rule: comma_separated.induct) auto

lemma print_line_single:
  assumes "CHR 0x0A \<notin> set stamp" and "\<forall>k\<in>set (map fst m). CHR 0x0A \<notin> set k"
  shows "\<exists>body. print_line stamp m = body @ [CHR 0x0A] \<and> CHR 0x0A \<notin> set body"
proof -
  have "\<forall>x\<in>set (map spec_entry m). CHR 0x0A \<notin> set x"
  proof
    fix x
    assume "x \<in> set (map spec_entry m)"
    then obtain e where e: "e \<in> set m" and x: "x = spec_entry e" by auto
    from e assms(2) have "CHR 0x0A \<notin> set (fst e)" by simp
    then show "CHR 0x0A \<notin> set x" unfolding x by (rule spec_entry_no_lf)
  qed
  then have "CHR 0x0A \<notin> set (comma_separated (map spec_entry m))"
    by (rule comma_separated_no_lf)
  then have "CHR 0x0A \<notin> set (''['' @ ESC @ ''[1;34m'' @ stamp @ '']'' @ ESC @ ''[0m ''
       @ comma_separated (map spec_entry m))"
    using assms(1) by (simp add: ESC_def)
  moreover have "print_line stamp m = (''['' @ ESC @ ''[1;34m'' @ stamp @ '']'' @ ESC @ ''[0m ''
       @ comma_separated (map spec_entry m)) @ [CHR 0x0A]"
    by (simp add: print_line_eq endl_def)
  ultimately show ?thesis by blast
qed

text \<open>
  Claim C6. After any sequence of operations completed from the initial state,
  a report writes one text to the standard output: the time stamp (in brackets
  and blue), then the items \<open><id>: <fps> FPS\<close> of all sampled streams separated
  by commas, then the line end. The items come in ascending order of the
  identifiers whatever the order of the samplings, an item is highlighted exactly
  when its fps is below 5, and the text is a single line when neither the stamp
  nor an identifier holds a line feed.
\<close>

theorem report_line:
  assumes "apply_ops ops init_globals = Inr g"
  shows "apply_op (Report stamp) g =
           Inr (emit [Print Cout (''['' @ ESC @ ''[1;34m'' @ stamp @ '']'' @ ESC @ ''[0m ''
                        @ comma_separated (map spec_entry (fps_map g)) @ endl)] g) \<and>
         sorted_wrt (<) (map fst (fps_map g)) \<and>
         set (map fst (fps_map g)) = set (sampled_names ops) \<and>
         (\<forall>e\<in>set (fps_map g).
            (sint (snd e) < 5 \<longrightarrow> spec_entry e = spec_highlight (spec_item (fst e) (snd e))) \<and>
            (\<not> sint (snd e) < 5 \<longrightarrow> spec_entry e = spec_item (fst e) (snd e))) \<and>
         (CHR 0x0A \<notin> set stamp \<and> (\<forall>k\<in>set (sampled_names ops). CHR 0x0A \<notin> set k) \<longrightarrow>
            (\<exists>body. print_line stamp (fps_map g) = body @ [CHR 0x0A] \<and> CHR 0x0A \<notin> set body))"
proof -
  have s0: "sorted_wrt (<) (map fst (fps_map init_globals))" by (simp add: init_globals_def)
  from apply_ops_fps_map [OF assms s0] have
    srt: "sorted_wrt (<) (map fst (fps_map g))"
    and keys: "set (map fst (fps_map g)) = set (sampled_names ops)"
    by (simp_all add: init_globals_def)
  have single: "CHR 0x0A \<notin> set stamp \<and> (\<forall>k\<in>set (sampled_names ops). CHR 0x0A \<notin> set k) \<longrightarrow>
            (\<exists>body. print_line stamp (fps_map g) = body @ [CHR 0x0A] \<and> CHR 0x0A \<notin> set body)"
    using print_line_single [of stamp "fps_map g"] unfolding keys by blast
  have "apply_op (Report stamp) g =
           Inr (emit [Print Cout (''['' @ ESC @ ''[1;34m'' @ stamp @ '']'' @ ESC @ ''[0m ''
                        @ comma_separated (map spec_entry (fps_map g)) @ endl)] g)"
    by (simp add: print_fps_body_def print_line_eq)
  moreover have "\<forall>e\<in>set (fps_map g).
            (sint (snd e) < 5 \<longrightarrow> spec_entry e = spec_highlight (spec_item (fst e) (snd e))) \<and>
            (\<not> sint (snd e) < 5 \<longrightarrow> spec_entry e = spec_item (fst e) (snd e))"
    by (simp add: spec_entry_def)
  ultimately show ?thesis using srt keys single by blast
qed

theorem report_line_witness:
  "\<exists>g. apply_ops
        [Construct ''cam1'' ''rtsp://host/b'' True,
         Sample \<lparr>name = ''cam1'', uri = ''rtsp://host/b'', frame_count = 24, running = True\<rparr> 2 True True,
         Report ''03:11:2026 10:00:00'',
         Sample \<lparr>name = ''cam0'', uri = ''rtsp://host/a'', frame_count = 0, running = True\<rparr> 2 True True,
         Sample \<lparr>name = ''cam1'', uri = ''rtsp://host/b'', frame_count = 7, running = True\<rparr> 2 True True]
        init_globals = Inr g \<and>
      sorted_wrt (<) (map fst (fps_map g)) \<and>
      set (map fst (fps_map g)) = {''cam0'', ''cam1''}"
proof -
  let ?ops = "[Construct ''cam1'' ''rtsp://host/b'' True,
         Sample \<lparr>name = ''cam1'', uri = ''rtsp://host/b'', frame_count = 24, running = True\<rparr> 2 True True,
         Report ''03:11:2026 10:00:00'',
         Sample \<lparr>name = ''cam0'', uri = ''rtsp://host/a'', frame_count = 0, running = True\<rparr> 2 True True,
         Sample \<lparr>name = ''cam1'', uri = ''rtsp://host/b'', frame_count = 7, running = True\<rparr> 2 True True]"
  have "\<exists>g. apply_ops ?ops init_globals = Inr g"
    by (simp add: Camera_ctor_def init_globals_def emit_def run_body_def int_div_def
        subscript_def Let_def print_fps_body_def)
  then obtain g where r: "apply_ops ?ops init_globals = Inr g" by blast
  from report_line [OF r, of "''03:11:2026 10:00:02''"] have
    "sorted_wrt (<) (map fst (fps_map g)) \<and> set (map fst (fps_map g)) = {''cam0'', ''cam1''}"
    by auto
  with r show ?thesis by blast
qed

section \<open>The end of the run\<close>

lemma print_fps_no_result: "print_fps clock others i g = Some y \<Longrightarrow> False"
  by (rule print_fps.raw_induct [rotated, where P = "\<lambda>_ _ _ _ _. False"]) blast+

lemma print_fps_None: "print_fps clock others i g = None"
proof (cases "print_fps clock others i g")
  case None
  then show ?thesis .
next
  case (Some y)
  then show ?thesis using print_fps_no_result by blast
qed

lemma main_never_returns_0: "main argv file answers clock others \<noteq> Some (Returns 0)"
  by (auto simp: main_def main_startup_def print_fps_None Let_def split_beta split: sum.splits startup.splits prod.splits if_splits)

text \<open>
  Claim C7, on the code. \<open>print_fps\<close> has no stop signal: for every clock and
  whatever the other threads do, from every pass and state on, it does not
  return. \<open>main\<close> joins its thread before \<open>return 0\<close>, so no run of \<open>main\<close>
  returns 0: it ends with the usage error, with an uncaught exception, or not at
  all.
\<close>

theorem print_fps_never_returns:
  "print_fps clock others i g = None \<and>
   main argv file answers clock others \<noteq> Some (Returns 0)"
  by (simp add: print_fps_None main_never_returns_0)

section \<open>The command line\<close>

lemma digit_not_space_sign:
  "isdigit c \<Longrightarrow> \<not> isspace c \<and> c \<noteq> CHR ''-'' \<and> c \<noteq> CHR ''+''"
  by (auto simp: isdigit_def isspace_def)

lemma digit_val_nonneg: "isdigit c \<Longrightarrow> 0 \<le> digit_val c"
  by (auto simp: isdigit_def digit_val_def)

lemma foldl_decimal_nonneg:
  "\<forall>c\<in>set ds. isdigit c \<Longrightarrow> 0 \<le> acc \<Longrightarrow> 0 \<le> foldl (\<lambda>acc c. 10 * acc + digit_val c) acc ds"
proof (induction ds arbitrary: acc)
  case Nil
  then show ?case by simp
next
  case (Cons c ds)
  have "0 \<le> 10 * acc + digit_val c"
    using Cons.prems digit_val_nonneg [of c] by simp
  with Cons show ?case by simp
qed

lemma decimal_nonneg: "\<forall>c\<in>set ds. isdigit c \<Longrightarrow> 0 \<le> decimal ds"
  unfolding decimal_def by (rule foldl_decimal_nonneg) simp_all

lemma stoi_parts:
  assumes "argument_parts s ws sg ds rest"
  shows "stoi s =
     (if ds = [] then Inl invalid_argument
      else if signed_decimal sg ds < - (2 ^ 31) \<or> 2 ^ 31 - 1 < signed_decimal sg ds
           then Inl out_of_range
           else Inr (word_of_int (signed_decimal sg ds)))"
proof -
  from assms have s: "s = ws @ sg @ ds @ rest"
    and w: "\<forall>c\<in>set ws. isspace c"
    and g: "sg = [] \<or> sg = ''-'' \<or> sg = ''+''"
    and dg: "\<forall>c\<in>set ds. isdigit c"
    and r: "rest = [] \<or> \<not> isdigit (hd rest)"
    and n: "sg = [] \<and> ds = [] \<and> rest \<noteq> [] \<longrightarrow>
        \<not> isspace (hd rest) \<and> hd rest \<noteq> CHR ''-'' \<and> hd rest \<noteq> CHR ''+''"
    by (simp_all add: argument_parts_def)
  have tr: "takeWhile isdigit rest = []"
    using r by (cases rest) auto
  have t: "takeWhile isdigit (ds @ rest) = ds"
    using dg tr by (simp add: takeWhile_append2)
  have plain: "ds @ rest = [] \<or>
      (\<not> isspace (hd (ds @ rest)) \<and> hd (ds @ rest) \<noteq> CHR ''-'' \<and> hd (ds @ rest) \<noteq> CHR ''+'')"
    if "sg = []"
  proof (cases ds)
    case Nil
    then show ?thesis using n that by auto
  next
    case (Cons c ds')
    then have "isdigit c" using dg by simp
    from digit_not_space_sign [OF this] show ?thesis using Cons by simp
  qed
  have d1: "dropWhile isspace (sg @ ds @ rest) = sg @ ds @ rest"
  proof (cases "sg = []")
    case True
    from plain [OF True] show ?thesis using True by (cases "ds @ rest") auto
  next
    case False
    with g show ?thesis by (auto simp: isspace_def)
  qed
  have d: "dropWhile isspace s = sg @ ds @ rest"
    unfolding s using w d1 by (simp add: dropWhile_append2)
  have sgn: "(case sg @ ds @ rest of
               c # r \<Rightarrow> if c = CHR ''-'' then (True, r)
                        else if c = CHR ''+'' then (False, r)
                        else (False, sg @ ds @ rest)
             | [] \<Rightarrow> (False, sg @ ds @ rest)) = (sg = ''-'', ds @ rest)"
  proof (cases "sg = []")
    case True
    from plain [OF True] show ?thesis using True by (cases "ds @ rest") auto
  next
    case False
    with g show ?thesis by auto
  qed
  show ?thesis
    by (simp add: stoi_def Let_def d sgn t signed_decimal_def)
qed

lemma argument_parts_exist: "\<exists>ws sg ds rest. argument_parts s ws sg ds rest"
proof -
  let ?ws = "takeWhile isspace s"
  let ?r = "dropWhile isspace s"
  have s: "s = ?ws @ ?r" by simp
  have w: "\<forall>c\<in>set ?ws. isspace c" by (auto dest: set_takeWhileD)
  have rest_ok: "dropWhile isdigit xs = [] \<or> \<not> isdigit (hd (dropWhile isdigit xs))" for xs
    using hd_dropWhile [of isdigit xs] by blast
  have dig: "\<forall>c\<in>set (takeWhile isdigit xs). isdigit c" for xs
    by (auto dest: set_takeWhileD)
  show ?thesis
  proof (cases ?r)
    case Nil
    have "argument_parts s ?ws [] [] []"
      using s w Nil by (simp add: argument_parts_def)
    then show ?thesis by blast
  next
    case (Cons c r1)
    have nsp: "\<not> isspace c"
      using hd_dropWhile [of isspace s] Cons by simp
    show ?thesis
    proof (cases "c = CHR ''-'' \<or> c = CHR ''+''")
      case True
      have "s = ?ws @ [c] @ takeWhile isdigit r1 @ dropWhile isdigit r1"
        using s Cons by simp
      then have "argument_parts s ?ws [c] (takeWhile isdigit r1) (dropWhile isdigit r1)"
        unfolding argument_parts_def using w True rest_ok [of r1] dig [of r1] by auto
      then show ?thesis by blast
    next
      case False
      have e: "s = ?ws @ [] @ takeWhile isdigit ?r @ dropWhile isdigit ?r"
        using s by simp
      have last: "takeWhile isdigit ?r = [] \<and> dropWhile isdigit ?r \<noteq> [] \<longrightarrow>
          \<not> isspace (hd (dropWhile isdigit ?r)) \<and> hd (dropWhile isdigit ?r) \<noteq> CHR ''-'' \<and>
          hd (dropWhile isdigit ?r) \<noteq> CHR ''+''"
      proof
        assume a: "takeWhile isdigit ?r = [] \<and> dropWhile isdigit ?r \<noteq> []"
        have "takeWhile isdigit ?r @ dropWhile isdigit ?r = ?r" by simp
        with a have "dropWhile isdigit ?r = ?r" by simp
        then show "\<not> isspace (hd (dropWhile isdigit ?r)) \<and> hd (dropWhile isdigit ?r) \<noteq> CHR ''-'' \<and>
          hd (dropWhile isdigit ?r) \<noteq> CHR ''+''"
          using Cons nsp False by simp
      qed
      have "argument_parts s ?ws [] (takeWhile isdigit ?r) (dropWhile isdigit ?r)"
        unfolding argument_parts_def using e w rest_ok [of ?r] dig [of ?r] last by blast
      then show ?thesis by blast
    qed
  qed
qed

text \<open>
  Claim C9, as stated, at concrete inputs: with the argument \<open>abc\<close> the program
  ends in the uncaught \<open>std::invalid_argument\<close> of \<open>std::stoi\<close> and has
  printed nothing, no usage message; with the argument \<open>12abc\<close>, which is not a
  whole number, it goes on with the interval 12.
\<close>

theorem unparsable_interval_no_usage:
  "main_startup [''./check_fps'', ''abc''] None = (Uncaught invalid_argument, []) \<and>
   fst (main_startup [''./check_fps'', ''12abc''] None) = Proceed 12 []"
  by (simp add: main_startup_def stoi_def isspace_def isdigit_def decimal_def digit_val_def
      read_camera_uris_def)

text \<open>
  Claim C9, amended. For every argument vector. With no element at all the
  program writes \<open>Usage: \<close> to the standard error stream and returns 1; with
  the program name only it writes the usage message there and returns 1. With
  an argument, the conversion skips leading white space, takes one sign if there
  is one, and reads the digits that follow, ignoring the rest; every argument
  splits in this way. Without a digit at that place the program ends in the
  uncaught \<open>std::invalid_argument\<close> and prints nothing; with digits whose
  signed value is below \<open>-2^31\<close> or above \<open>2^31 - 1\<close> it ends in the uncaught
  \<open>std::out_of_range\<close> and prints nothing; otherwise it goes on with that
  value as the interval.
\<close>

theorem main_startup_cases:
  "(argv = [] \<longrightarrow> main_startup argv file = (Exit 1, [Print Cerr ''Usage: ''])) \<and>
   (argv = [prog] \<longrightarrow>
      main_startup argv file =
        (Exit 1, [Print Cerr (''Usage: '' @ prog @ '' <interval_in_seconds>'' @ endl)])) \<and>
   (2 \<le> length argv \<longrightarrow>
      (\<exists>ws sg ds rest. argument_parts (argv ! 1) ws sg ds rest) \<and>
      (argument_parts (argv ! 1) ws sg ds rest \<longrightarrow>
         main_startup argv file =
           (if ds = [] then (Uncaught invalid_argument, [])
            else if signed_decimal sg ds < - (2 ^ 31) \<or> 2 ^ 31 - 1 < signed_decimal sg ds
                 then (Uncaught out_of_range, [])
                 else (Proceed (word_of_int (signed_decimal sg ds))
                         (fst (read_camera_uris file ''../cameras.txt'')),
                       snd (read_camera_uris file ''../cameras.txt'')))))"
proof (intro conjI impI)
  assume "argv = []"
  then show "main_startup argv file = (Exit 1, [Print Cerr ''Usage: ''])"
    by (simp add: main_startup_def)
next
  assume "argv = [prog]"
  then show "main_startup argv file =
        (Exit 1, [Print Cerr (''Usage: '' @ prog @ '' <interval_in_seconds>'' @ endl)])"
    by (simp add: main_startup_def)
next
  show "\<exists>ws sg ds rest. argument_parts (argv ! 1) ws sg ds rest"
    by (rule argument_parts_exist)
next
  assume l: "2 \<le> length argv" and a: "argument_parts (argv ! 1) ws sg ds rest"
  show "main_startup argv file =
           (if ds = [] then (Uncaught invalid_argument, [])
            else if signed_decimal sg ds < - (2 ^ 31) \<or> 2 ^ 31 - 1 < signed_decimal sg ds
                 then (Uncaught out_of_range, [])
                 else (Proceed (word_of_int (signed_decimal sg ds))
                         (fst (read_camera_uris file ''../cameras.txt'')),
                       snd (read_camera_uris file ''../cameras.txt'')))"
    using l stoi_parts [OF a] by (simp add: main_startup_def split_beta)
qed

theorem main_startup_cases_witness:
  "main_startup [''./check_fps''] None =
     (Exit 1, [Print Cerr (''Usage: ./check_fps <interval_in_seconds>'' @ endl)]) \<and>
   main_startup [''./check_fps'', ''--help''] None = (Uncaught invalid_argument, []) \<and>
   main_startup [''./check_fps'', '' -5s''] (Some []) = (Proceed (- 5) [], []) \<and>
   main_startup [''./check_fps'', ''+4294967296''] (Some []) = (Uncaught out_of_range, [])"
  using main_startup_cases [of "[''./check_fps'']" None "''./check_fps''"]
    main_startup_cases [of "[''./check_fps'', ''--help'']" None _ "[]" "''-''" "[]" "''-help''"]
    main_startup_cases [of "[''./check_fps'', '' -5s'']" "Some []" _ "'' ''" "''-''" "''5''" "''s''"]
    main_startup_cases [of "[''./check_fps'', ''+4294967296'']" "Some []" _ "[]" "''+''"
      "''4294967296''" "[]"]
  by (simp add: argument_parts_def signed_decimal_def isspace_def isdigit_def decimal_def
      digit_val_def read_camera_uris_def)

section \<open>The list of streams\<close>

text \<open>
  What the loop of \<open>main\<close> over the entries does, whatever the answers: the
  cameras it makes, the calls to the pipelines, and the two maps.
\<close>

lemma launch_step:
  "launch answers (entry # rest) g =
     (\<lparr>name = fst entry, uri = snd entry, frame_count = 0, running = True\<rparr>
        # fst (launch answers rest
                 (emit (start (fst (Camera_ctor (fst entry) (snd entry) (fst (answers (fst entry))) g))
                          (snd (answers (fst entry))))
                    (snd (Camera_ctor (fst entry) (snd entry) (fst (answers (fst entry))) g)))),
      snd (launch answers rest
             (emit (start (fst (Camera_ctor (fst entry) (snd entry) (fst (answers (fst entry))) g))
                      (snd (answers (fst entry))))
                (snd (Camera_ctor (fst entry) (snd entry) (fst (answers (fst entry))) g)))))"
  by (simp add: split_beta Let_def) (simp add: Camera_ctor_def Let_def)

lemma launch_cameras:
  "fst (launch answers uris g) =
     map (\<lambda>e. \<lparr>name = fst e, uri = snd e, frame_count = 0, running = True\<rparr>) uris"
proof (induction uris arbitrary: g)
  case Nil
  show ?case by simp
next
  case (Cons entry rest)
  show ?case unfolding launch_step by (simp add: Cons.IH)
qed

lemma launch_calls:
  "pipeline_calls (trace (snd (launch answers uris g))) =
     pipeline_calls (trace g) @ map (\<lambda>e. (fst e, GST_STATE_PLAYING)) uris"
proof (induction uris arbitrary: g)
  case Nil
  show ?case by simp
next
  case (Cons entry rest)
  show ?case
    unfolding launch_step
    by (simp add: Cons.IH emit_def pipeline_calls_append pipeline_calls_start Camera_ctor_facts)
qed

lemma launch_maps:
  "fps_map (snd (launch answers uris g)) = fps_map g \<and>
   map_find k (downtime_map (snd (launch answers uris g))) =
     (if k \<in> fst ` set uris then Some (- 1) else map_find k (downtime_map g))"
proof (induction uris arbitrary: g)
  case Nil
  show ?case by simp
next
  case (Cons entry rest)
  let ?g1 = "emit (start (fst (Camera_ctor (fst entry) (snd entry) (fst (answers (fst entry))) g))
                      (snd (answers (fst entry))))
                (snd (Camera_ctor (fst entry) (snd entry) (fst (answers (fst entry))) g))"
  have f: "fps_map ?g1 = fps_map g"
    by (simp add: emit_def Camera_ctor_facts)
  have d: "map_find k (downtime_map ?g1) =
      (if k = fst entry then Some (- 1) else map_find k (downtime_map g))"
    by (simp add: emit_def Camera_ctor_def Let_def map_find_assign_same map_find_assign_other)
  show ?case
    unfolding launch_step using Cons.IH [of ?g1] f d by auto
qed

lemma run_body_error_independent:
  "run_body interval a b cg = Inl e \<Longrightarrow> run_body interval a' b' cg = Inl e"
  by (cases cg, cases "int_div (frame_count (fst cg)) interval")
     (auto simp: run_body_Inl run_body_Inr)

lemma main_proceeds_forever:
  "fst (main_startup argv file) = Proceed interval uris \<Longrightarrow>
   main argv file answers clock others = None"
  by (cases "main_startup argv file") (simp add: main_def print_fps_None)

text \<open>
  Claim C8, as stated, at a concrete input: when \<open>../cameras.txt\<close> cannot be
  opened, \<open>main\<close> goes on to monitor with the empty map of cameras, exactly as
  it does for an empty file.
\<close>

theorem unreadable_list_proceeds:
  "fst (main_startup [''./check_fps'', ''1''] None) = Proceed 1 [] \<and>
   fst (main_startup [''./check_fps'', ''1''] (Some [])) = Proceed 1 []"
  by (simp add: main_startup_def stoi_def isspace_def isdigit_def decimal_def digit_val_def
      read_camera_uris_def)

text \<open>
  Claim C8, amended. For every accepted interval argument: when the list of
  streams cannot be opened, the program writes \<open>Could not open the file\<close> to
  the standard error stream and goes on with no stream, as for an empty list,
  and \<open>main\<close> does not end. No failure of a single stream ends the process or
  keeps another stream from being monitored: whatever GStreamer answers to the
  constructions and starts, the loop of \<open>main\<close> constructs a camera for every
  entry of the list (with the entry's name and location, no frame counted,
  running, the downtime counter at \<open>-1\<close>) and asks each pipeline in turn to
  play, without touching \<open>fps_map\<close>; and whether a pass of \<open>Camera::run\<close>
  fails does not depend on the answers of the pipeline to \<open>stop\<close> and
  \<open>start\<close>.
\<close>

theorem unreadable_list_not_fatal:
  assumes "2 \<le> length argv" and "stoi (argv ! 1) = Inr interval"
  shows "main_startup argv None =
           (Proceed interval [],
            [Print Cerr (''Could not open the file: ../cameras.txt'' @ endl)]) \<and>
         fst (main_startup argv None) = fst (main_startup argv (Some [])) \<and>
         main argv None answers clock others = None \<and>
         (\<forall>uris g.
            fst (launch answers uris g) =
              map (\<lambda>e. \<lparr>name = fst e, uri = snd e, frame_count = 0, running = True\<rparr>) uris \<and>
            pipeline_calls (trace (snd (launch answers uris g))) =
              pipeline_calls (trace g) @ map (\<lambda>e. (fst e, GST_STATE_PLAYING)) uris \<and>
            (\<forall>e\<in>set uris. map_find (fst e) (downtime_map (snd (launch answers uris g))) = Some (- 1)) \<and>
            fps_map (snd (launch answers uris g)) = fps_map g) \<and>
         (\<forall>a b a' b' cg e. run_body interval a b cg = Inl e \<longrightarrow> run_body interval a' b' cg = Inl e)"
proof -
  have m: "main_startup argv None =
           (Proceed interval [],
            [Print Cerr (''Could not open the file: ../cameras.txt'' @ endl)])"
    using assms by (simp add: main_startup_def read_camera_uris_def)
  have e: "fst (main_startup argv (Some [])) = Proceed interval []"
    using assms by (simp add: main_startup_def read_camera_uris_def)
  have n: "main argv None answers clock others = None"
    by (rule main_proceeds_forever [of _ _ interval "[]"]) (simp add: m)
  have f: "fst (main_startup argv None) = fst (main_startup argv (Some []))"
    by (simp add: m e)
  have l: "\<forall>uris g.
            fst (launch answers uris g) =
              map (\<lambda>e. \<lparr>name = fst e, uri = snd e, frame_count = 0, running = True\<rparr>) uris \<and>
            pipeline_calls (trace (snd (launch answers uris g))) =
              pipeline_calls (trace g) @ map (\<lambda>e. (fst e, GST_STATE_PLAYING)) uris \<and>
            (\<forall>e\<in>set uris. map_find (fst e) (downtime_map (snd (launch answers uris g))) = Some (- 1)) \<and>
            fps_map (snd (launch answers uris g)) = fps_map g"
  proof (intro allI conjI ballI)
    fix uris g
    show "fst (launch answers uris g) =
              map (\<lambda>e. \<lparr>name = fst e, uri = snd e, frame_count = 0, running = True\<rparr>) uris"
      by (rule launch_cameras)
    show "pipeline_calls (trace (snd (launch answers uris g))) =
              pipeline_calls (trace g) @ map (\<lambda>e. (fst e, GST_STATE_PLAYING)) uris"
      by (rule launch_calls)
    show "fps_map (snd (launch answers uris g)) = fps_map g"
      using launch_maps [of answers uris g] by simp
    fix e
    assume "e \<in> set uris"
    then show "map_find (fst e) (downtime_map (snd (launch answers uris g))) = Some (- 1)"
      using launch_maps [of answers uris g "fst e"] by simp
  qed
  have r: "\<forall>a b a' b' cg e. run_body interval a b cg = Inl e \<longrightarrow> run_body interval a' b' cg = Inl e"
    by (intro allI impI) (rule run_body_error_independent)
  from m f n l r show ?thesis by (intro conjI)
qed

theorem unreadable_list_not_fatal_witness:
  "main_startup [''./check_fps'', ''1''] None =
     (Proceed 1 [], [Print Cerr (''Could not open the file: ../cameras.txt'' @ endl)]) \<and>
   main [''./check_fps'', ''1''] None (\<lambda>nm. (False, False)) (\<lambda>i. ''03:11:2026 10:00:00'') (\<lambda>i g. g) = None \<and>
   pipeline_calls (trace (snd (launch (\<lambda>nm. (False, False))
       [(''cam0'', ''rtsp://host/a''), (''cam1'', ''rtsp://host/b'')] init_globals))) =
     [(''cam0'', GST_STATE_PLAYING), (''cam1'', GST_STATE_PLAYING)]"
proof -
  have h: "2 \<le> length [''./check_fps'', ''1'']" "stoi ([''./check_fps'', ''1''] ! 1) = Inr 1"
    by (simp_all add: stoi_def isspace_def isdigit_def decimal_def digit_val_def)
  note t = unreadable_list_not_fatal [OF h, of "\<lambda>nm. (False, False)"
      "\<lambda>i. ''03:11:2026 10:00:00''" "\<lambda>i g. g"]
  from t have a: "main_startup [''./check_fps'', ''1''] None =
     (Proceed 1 [], [Print Cerr (''Could not open the file: ../cameras.txt'' @ endl)])"
    by (rule conjunct1)
  from t have b: "main [''./check_fps'', ''1''] None (\<lambda>nm. (False, False))
      (\<lambda>i. ''03:11:2026 10:00:00'') (\<lambda>i g. g) = None"
    by (elim conjE)
  from t have "\<forall>uris g.
      pipeline_calls (trace (snd (launch (\<lambda>nm. (False, False)) uris g))) =
        pipeline_calls (trace g) @ map (\<lambda>e. (fst e, GST_STATE_PLAYING)) uris"
    by (elim conjE) simp
  then have c: "pipeline_calls (trace (snd (launch (\<lambda>nm. (False, False))
       [(''cam0'', ''rtsp://host/a''), (''cam1'', ''rtsp://host/b'')] init_globals))) =
     [(''cam0'', GST_STATE_PLAYING), (''cam1'', GST_STATE_PLAYING)]"
    by (simp del: launch.simps add: init_globals_def)
  from a b c show ?thesis by (intro conjI)
qed

section \<open>The interval 0\<close>

lemma run_body_total_iff:
  "(\<exists>r. run_body interval a b (cam, g) = Inr r) \<longleftrightarrow>
   (\<exists>q. int_div (frame_count cam) interval = Inr q)"
proof (cases "int_div (frame_count cam) interval")
  case (Inl e)
  then show ?thesis by (simp add: run_body_Inl)
next
  case (Inr q)
  then show ?thesis by (simp add: run_body_Inr)
qed

lemma int_div_total_iff:
  "(\<exists>q. int_div x y = Inr q) \<longleftrightarrow> y \<noteq> 0 \<and> \<not> (sint x = - (2 ^ 31) \<and> sint y = - 1)"
  by (auto simp: int_div_def)

text \<open>
  Claim C10, as stated, at a concrete input: the argument \<open>-2\<close> is accepted,
  the interval \<open>-2\<close> is not greater than 0, and the pass of \<open>Camera::run\<close>
  succeeds with it for every camera and state. So the computation is total
  outside the precondition \<open>interval > 0\<close> as well.
\<close>

theorem negative_interval_total:
  "fst (main_startup [''./check_fps'', ''-2''] None) = Proceed (- 2) [] \<and>
   \<not> 0 < sint (- 2 :: cint) \<and>
   (\<forall>a b cam g. \<exists>r. run_body (- 2) a b (cam, g) = Inr r)"
proof (intro conjI allI)
  show "fst (main_startup [''./check_fps'', ''-2''] None) = Proceed (- 2) []"
    by (simp add: main_startup_def stoi_def isspace_def isdigit_def decimal_def digit_val_def
        read_camera_uris_def)
  show "\<not> 0 < sint (- 2 :: cint)" by simp
  fix a b cam g
  show "\<exists>r. run_body (- 2) a b (cam, g) = Inr r"
    unfolding run_body_total_iff int_div_total_iff by simp
qed

text \<open>
  Claim C10, amended. The argument \<open>0\<close> is accepted and gives the interval 0,
  with which every pass of \<open>Camera::run\<close> divides by zero. For a non-negative
  \<open>frame_count\<close> the pass succeeds exactly when the interval is not 0.
\<close>

theorem interval_zero_divides_by_zero:
  "fst (main_startup [prog, ''0''] file) = Proceed 0 (fst (read_camera_uris file ''../cameras.txt'')) \<and>
   run_body 0 a b (cam, g) = Inl DivisionByZero \<and>
   (0 \<le> sint (frame_count cam) \<longrightarrow>
      ((\<exists>r. run_body interval a b (cam, g) = Inr r) \<longleftrightarrow> interval \<noteq> 0))"
proof (intro conjI impI)
  show "fst (main_startup [prog, ''0''] file) = Proceed 0 (fst (read_camera_uris file ''../cameras.txt''))"
    by (simp add: main_startup_def stoi_def isspace_def isdigit_def decimal_def digit_val_def
        split_beta)
  show "run_body 0 a b (cam, g) = Inl DivisionByZero"
    by (simp add: run_body_def int_div_def)
  assume "0 \<le> sint (frame_count cam)"
  then show "(\<exists>r. run_body interval a b (cam, g) = Inr r) \<longleftrightarrow> interval \<noteq> 0"
    unfolding run_body_total_iff int_div_total_iff by auto
qed

theorem interval_zero_divides_by_zero_witness:
  "fst (main_startup [''./check_fps'', ''0''] None) = Proceed 0 [] \<and>
   run_body 0 True True
     (\<lparr>name = ''cam0'', uri = ''rtsp://host/a'', frame_count = 7, running = True\<rparr>, init_globals)
     = Inl DivisionByZero \<and>
   (\<exists>r. run_body 3 True True
     (\<lparr>name = ''cam0'', uri = ''rtsp://host/a'', frame_count = 7, running = True\<rparr>, init_globals)
     = Inr r)"
  using interval_zero_divides_by_zero [of "''./check_fps''" None True True
      "\<lparr>name = ''cam0'', uri = ''rtsp://host/a'', frame_count = 7, running = True\<rparr>"
      init_globals 3]
  by (simp add: read_camera_uris_def)

end
